theory Spec2Isabelle
  imports Main "HOL-Library.Word" "HOL-Library.Sublist"
begin

section \<open>The icon generator of src/App.tsx\<close>

text \<open>
  The conversion pipeline of \<^verbatim>\<open>src/App.tsx\<close>: \<^verbatim>\<open>handleFileSelect\<close>,
  \<^verbatim>\<open>handleConvert\<close>, \<^verbatim>\<open>loadImage\<close>, \<^verbatim>\<open>generatePngBlob\<close> and
  \<^verbatim>\<open>generateIcoBlob\<close>. The browser (file reader, image decoder, canvas, PNG encoder,
  fetch, JSZip, object URLs) is not part of the repository: it is the parameter \<open>env\<close> of
  every function. Each function returns, next to its result, the list of calls it made
  to the browser, in program order.
\<close>

subsection \<open>Data\<close>

type_synonym u8 = "8 word"

text \<open>A \<^verbatim>\<open>Blob\<close> is its bytes and its MIME type; a \<^verbatim>\<open>File\<close> is a Blob with a name.\<close>

record Blob =
  arrayBuffer :: "u8 list"
  type' :: string

record File = Blob +
  name :: string

text \<open>
  \<^verbatim>\<open>img.width\<close>, \<^verbatim>\<open>img.height\<close>, \<^verbatim>\<open>canvas.width\<close> and \<^verbatim>\<open>canvas.height\<close> are
  unsigned in the DOM: natural numbers. The \<^verbatim>\<open>size\<close> handed to \<^verbatim>\<open>generatePngBlob\<close> is a
  number of the program, here an integer of either sign.
\<close>

record dims =
  width :: nat
  height :: nat

record HTMLImageElement = dims +
  src :: string

text \<open>One \<^verbatim>\<open>ctx.drawImage(img, dx, dy, dw, dh)\<close> call.\<close>

type_synonym drawOp = "HTMLImageElement \<times> int \<times> int \<times> int \<times> int"

record HTMLCanvasElement = dims +
  imageSmoothingEnabled :: bool
  imageSmoothingQuality :: string
  drawn :: "drawOp list"

datatype Status = Idle | Converting | Success | Error

text \<open>
  One constructor for each \<^verbatim>\<open>new Error(...)\<close> of the source, in the words of its
  message, and \<open>RangeError\<close> for a \<^verbatim>\<open>DataView\<close> or typed-array access out of range:
  \<^item> \<open>InvalidFileType\<close>: "Invalid file type. Please upload a PNG file."
  \<^item> \<open>FailedToReadFile\<close>: "Failed to read the file."
  \<^item> \<open>FailedToReadFileData\<close>: "Failed to read file data."
  \<^item> \<open>FailedToLoadImage\<close>: "Failed to load image. The file might be corrupted."
  \<^item> \<open>CouldNotGetCanvasContext\<close>: "Could not get canvas context"
  \<^item> \<open>FailedToCreateBlob size\<close>: "Failed to create blob for size ..."
  \<^item> \<open>ImageTooSmall\<close>: "Image too small. Please use an image that is at least 16x16 pixels."
  \<^item> \<open>NoEligibleSizes\<close>: "Could not determine appropriate icon sizes for the given image."
  \<^item> \<open>FailedToFetchManifest statusText\<close>: "Failed to fetch manifest.json: ..."
  \<^item> \<open>FetchRejected\<close>, \<open>ZipFailed\<close>: a rejection of \<^verbatim>\<open>fetch\<close> or of
    \<^verbatim>\<open>zip.generateAsync\<close>.
\<close>

datatype error =
    InvalidFileType
  | FailedToReadFile
  | FailedToReadFileData
  | FailedToLoadImage
  | CouldNotGetCanvasContext
  | FailedToCreateBlob int
  | ImageTooSmall
  | NoEligibleSizes
  | FailedToFetchManifest string
  | FetchRejected
  | ZipFailed
  | RangeError

text \<open>What \<^verbatim>\<open>reader.readAsDataURL\<close> ends with.\<close>

datatype readResult = ReaderError | ReaderNonString | ReaderString string

record Response =
  ok :: bool
  statusText :: string
  body :: Blob

text \<open>The browser and the libraries.\<close>

record env =
  readAsDataURL :: "File \<Rightarrow> readResult"
  decodeImage :: "string \<Rightarrow> HTMLImageElement option"
  getContext :: "HTMLCanvasElement \<Rightarrow> bool"
  toBlob :: "HTMLCanvasElement \<Rightarrow> u8 list option"
  fetch :: "string \<Rightarrow> Response option"
  generateAsync :: "(string \<times> Blob) list \<Rightarrow> Blob option"
  createObjectURL :: "Blob \<Rightarrow> string"

text \<open>The calls to the browser that a run makes.\<close>

datatype event =
    RevokeObjectURL string
  | ReadAsDataURL File
  | SetImgSrc string
  | DrawImage HTMLImageElement int
  | CanvasToBlob int
  | Fetch string
  | GenerateAsync "string list"
  | CreateObjectURL

text \<open>The component's state: the four \<^verbatim>\<open>useState\<close> cells.\<close>

record state =
  pngFile :: "File option"
  zipBlobUrl :: "string option"
  status :: Status
  error :: "error option"

text \<open>
  \<^verbatim>\<open>pngPreviewUrl\<close> is no cell of its own: it is \<^verbatim>\<open>useMemo\<close> of \<^verbatim>\<open>pngFile\<close> (lines 101
  to 106), the object URL of the file when there is one and null otherwise.
\<close>

definition pngPreviewUrl :: "env \<Rightarrow> state \<Rightarrow> string option" where
  "pngPreviewUrl env st =
     (case pngFile st of
        None \<Rightarrow> None
      | Some file \<Rightarrow> Some (createObjectURL env (Blob.truncate file)))"

subsection \<open>Promises\<close>

text \<open>A settled promise is \<open>Inl\<close> of its rejection or \<open>Inr\<close> of its value.\<close>

definition bindE :: "error + 'a \<Rightarrow> ('a \<Rightarrow> error + 'b) \<Rightarrow> error + 'b" where
  "bindE r f = (case r of Inl e \<Rightarrow> Inl e | Inr v \<Rightarrow> f v)"

text \<open>
  \<^verbatim>\<open>Promise.all\<close>: the values in order, or a rejection. Of several rejections the first in
  list order is taken here; the program takes the first in time. The properties below
  are about successful runs and about errors that no rejection of the list can be, so
  they do not depend on which rejection wins.
\<close>

fun promiseAll :: "(error + 'a) list \<Rightarrow> error + 'a list" where
  "promiseAll [] = Inr []"
| "promiseAll (Inl e # ps) = Inl e"
| "promiseAll (Inr v # ps) = bindE (promiseAll ps) (\<lambda>vs. Inr (v # vs))"

subsection \<open>Buffers\<close>

text \<open>
  An \<^verbatim>\<open>ArrayBuffer\<close> is a list of bytes. \<open>writeBytes\<close> overwrites the bytes from
  \<open>byteOffset\<close> on; its callers check the range first, as the \<^verbatim>\<open>DataView\<close> setters and
  the \<^verbatim>\<open>Uint8Array\<close> constructor do.
\<close>

definition writeBytes :: "u8 list \<Rightarrow> nat \<Rightarrow> u8 list \<Rightarrow> u8 list" where
  "writeBytes buf byteOffset bs =
     take byteOffset buf @ bs @ drop (byteOffset + length bs) buf"

text \<open>The \<open>n\<close> low bytes of \<open>v\<close>, in the byte order asked for.\<close>

definition bytesOf :: "nat \<Rightarrow> nat \<Rightarrow> bool \<Rightarrow> u8 list" where
  "bytesOf n v littleEndian =
     (let le = map (\<lambda>k. of_nat (v div 256 ^ k)) [0..<n]
      in if littleEndian then le else rev le)"

definition setUint8 :: "u8 list \<Rightarrow> nat \<Rightarrow> nat \<Rightarrow> error + u8 list" where
  "setUint8 view byteOffset v =
     (if byteOffset + 1 \<le> length view
      then Inr (writeBytes view byteOffset [of_nat v])
      else Inl RangeError)"

definition setUint16 :: "u8 list \<Rightarrow> nat \<Rightarrow> nat \<Rightarrow> bool \<Rightarrow> error + u8 list" where
  "setUint16 view byteOffset v littleEndian =
     (if byteOffset + 2 \<le> length view
      then Inr (writeBytes view byteOffset (bytesOf 2 v littleEndian))
      else Inl RangeError)"

definition setUint32 :: "u8 list \<Rightarrow> nat \<Rightarrow> nat \<Rightarrow> bool \<Rightarrow> error + u8 list" where
  "setUint32 view byteOffset v littleEndian =
     (if byteOffset + 4 \<le> length view
      then Inr (writeBytes view byteOffset (bytesOf 4 v littleEndian))
      else Inl RangeError)"

subsection \<open>generatePngBlob\<close>

definition createCanvas :: HTMLCanvasElement where
  "createCanvas =
     \<lparr>width = 300, height = 150, imageSmoothingEnabled = True,
      imageSmoothingQuality = ''low'', drawn = []\<rparr>"

text \<open>
  \<^verbatim>\<open>canvas.width = size\<close>: the DOM takes the number modulo \<open>2 ^ 32\<close> (an unsigned long)
  and keeps it when it is at most \<open>2 ^ 31 - 1\<close>; otherwise the attribute falls back to
  its default, 300 for the width and 150 for the height.
\<close>

definition reflectUnsignedLong :: "nat \<Rightarrow> int \<Rightarrow> nat" where
  "reflectUnsignedLong dflt v =
     (let n = nat (v mod 2 ^ 32) in if n \<le> 2147483647 then n else dflt)"

definition generatePngBlob ::
    "env \<Rightarrow> HTMLImageElement \<Rightarrow> int \<Rightarrow> event list \<times> (error + Blob)" where
  "generatePngBlob env img sz =
     (let canvas = createCanvas\<lparr>width := reflectUnsignedLong 300 sz,
                                height := reflectUnsignedLong 150 sz\<rparr> in
      if \<not> getContext env canvas then ([], Inl CouldNotGetCanvasContext)
      else
        let canvas = canvas\<lparr>imageSmoothingEnabled := True,
                            imageSmoothingQuality := ''high'',
                            drawn := drawn canvas @ [(img, 0, 0, sz, sz)]\<rparr>
        in ([DrawImage img sz, CanvasToBlob sz],
            case toBlob env canvas of
              None \<Rightarrow> Inl (FailedToCreateBlob sz)
            | Some bytes \<Rightarrow> Inr \<lparr>arrayBuffer = bytes, type' = ''image/png''\<rparr>))"

subsection \<open>generateIcoBlob\<close>

record imageEntry =
  size' :: nat
  buffer :: "u8 list"

definition standardSizes :: "nat list" where
  "standardSizes = [256, 128, 64, 48, 32, 16]"

text \<open>The loop that writes the directory, one 16-byte row for each entry.\<close>

fun writeDirectory :: "u8 list \<Rightarrow> nat \<Rightarrow> nat \<Rightarrow> imageEntry list \<Rightarrow> error + u8 list" where
  "writeDirectory finalView entryOffset fileOffset [] = Inr finalView"
| "writeDirectory finalView entryOffset fileOffset (entry # rest) =
     (let displaySize = (if size' entry = 256 then 0 else size' entry) in
      bindE (setUint8 finalView entryOffset displaySize) (\<lambda>v.
      bindE (setUint8 v (entryOffset + 1) displaySize) (\<lambda>v.
      bindE (setUint8 v (entryOffset + 2) 0) (\<lambda>v.
      bindE (setUint8 v (entryOffset + 3) 0) (\<lambda>v.
      bindE (setUint16 v (entryOffset + 4) 0 True) (\<lambda>v.
      bindE (setUint16 v (entryOffset + 6) 0 True) (\<lambda>v.
      bindE (setUint32 v (entryOffset + 8) (length (buffer entry)) True) (\<lambda>v.
      bindE (setUint32 v (entryOffset + 12) fileOffset True) (\<lambda>v.
      writeDirectory v (entryOffset + 16) (fileOffset + length (buffer entry)) rest)))))))))"

text \<open>
  The loop that copies the image data: \<^verbatim>\<open>new Uint8Array(finalBuffer, dataOffset, n)\<close>
  raises a RangeError when the window leaves the buffer.
\<close>

fun copyImageData :: "u8 list \<Rightarrow> nat \<Rightarrow> imageEntry list \<Rightarrow> error + u8 list" where
  "copyImageData finalBuffer dataOffset [] = Inr finalBuffer"
| "copyImageData finalBuffer dataOffset (entry # rest) =
     (if dataOffset + length (buffer entry) \<le> length finalBuffer
      then copyImageData (writeBytes finalBuffer dataOffset (buffer entry))
             (dataOffset + length (buffer entry)) rest
      else Inl RangeError)"

text \<open>
  \<^verbatim>\<open>sizes.map(...)\<close> starts every \<^verbatim>\<open>generatePngBlob\<close> before any of them is awaited,
  so the calls of all of them are in the trace, also when one of them fails.
\<close>

definition pngPromises ::
    "env \<Rightarrow> HTMLImageElement \<Rightarrow> nat list \<Rightarrow> (event list \<times> (error + imageEntry)) list" where
  "pngPromises env img sizes =
     map (\<lambda>sz. case generatePngBlob env img (int sz) of
            (tr, r) \<Rightarrow> (tr, bindE r (\<lambda>blob. Inr \<lparr>size' = sz, buffer = arrayBuffer blob\<rparr>)))
         sizes"

text \<open>
  The bytes that \<^verbatim>\<open>blob.arrayBuffer()\<close> gives for the blob of
  \<^verbatim>\<open>generatePngBlob(img, size)\<close> (lines 210 and 211), when there is one.
\<close>

definition pngBytes :: "env \<Rightarrow> HTMLImageElement \<Rightarrow> nat \<Rightarrow> u8 list option" where
  "pngBytes env img sz =
     (case snd (generatePngBlob env img (int sz)) of
        Inl e \<Rightarrow> None
      | Inr blob \<Rightarrow> Some (arrayBuffer blob))"

text \<open>
  \<^verbatim>\<open>generateIcoBlob\<close> from the selection of the sizes on (lines 200 to 257), that is,
  without the guard of lines 196 to 198.
\<close>

definition generateIcoBlob_unguarded ::
    "env \<Rightarrow> HTMLImageElement \<Rightarrow> event list \<times> (error + Blob)" where
  "generateIcoBlob_unguarded env img =
     (let sizes = filter (\<lambda>s. s \<le> width img \<and> s \<le> height img) standardSizes in
      if length sizes = 0 then ([], Inl NoEligibleSizes)
      else
        let promises = pngPromises env img sizes in
        (concat (map fst promises),
         bindE (promiseAll (map snd promises)) (\<lambda>imageEntries.
           let headerSize = 6;
               directorySize = 16 * length imageEntries;
               totalSize = fold (\<lambda>entry totalSize. totalSize + length (buffer entry))
                             imageEntries (headerSize + directorySize);
               finalBuffer = replicate totalSize 0;
               fileOffset = headerSize + directorySize
           in
           bindE (setUint16 finalBuffer 0 0 True) (\<lambda>v.
           bindE (setUint16 v 2 1 True) (\<lambda>v.
           bindE (setUint16 v 4 (length imageEntries) True) (\<lambda>v.
           bindE (writeDirectory v headerSize fileOffset imageEntries) (\<lambda>v.
           bindE (copyImageData v (headerSize + directorySize) imageEntries) (\<lambda>v.
           Inr \<lparr>arrayBuffer = v, type' = ''image/x-icon''\<rparr>))))))))"

definition generateIcoBlob :: "env \<Rightarrow> HTMLImageElement \<Rightarrow> event list \<times> (error + Blob)" where
  "generateIcoBlob env img =
     (if width img < 16 \<or> height img < 16 then ([], Inl ImageTooSmall)
      else generateIcoBlob_unguarded env img)"

subsection \<open>loadImage, handleConvert, handleFileSelect\<close>

definition loadImage :: "env \<Rightarrow> File \<Rightarrow> event list \<times> (error + HTMLImageElement)" where
  "loadImage env file =
     (case readAsDataURL env file of
        ReaderError \<Rightarrow> ([ReadAsDataURL file], Inl FailedToReadFile)
      | ReaderNonString \<Rightarrow> ([ReadAsDataURL file], Inl FailedToReadFileData)
      | ReaderString url \<Rightarrow>
          ([ReadAsDataURL file, SetImgSrc url],
           case decodeImage env url of
             None \<Rightarrow> Inl FailedToLoadImage
           | Some img \<Rightarrow> Inr img))"

definition fail :: "state \<Rightarrow> error \<Rightarrow> state" where
  "fail st e = st\<lparr>error := Some e, status := Error\<rparr>"

text \<open>
  The four arguments of \<^verbatim>\<open>Promise.all\<close> are evaluated, and so started, one after the
  other before the first is awaited.
\<close>

definition handleConvert :: "env \<Rightarrow> state \<Rightarrow> File \<Rightarrow> event list \<times> state" where
  "handleConvert env st0 file =
     (let st = st0\<lparr>status := Converting, error := None\<rparr> in
      case loadImage env file of
        (tr0, Inl e) \<Rightarrow> (tr0, fail st e)
      | (tr0, Inr img) \<Rightarrow>
          (let (trIco, ico) = generateIcoBlob env img;
               (tr192, png192) = generatePngBlob env img 192;
               (tr512, png512) = generatePngBlob env img 512;
               tr = tr0 @ trIco @ tr192 @ tr512 @ [Fetch ''manifest.json''];
               manifest = (case fetch env ''manifest.json'' of
                             None \<Rightarrow> Inl FetchRejected | Some r \<Rightarrow> Inr r);
               awaited =
                 bindE ico (\<lambda>icoBlob.
                 bindE png192 (\<lambda>png192Blob.
                 bindE png512 (\<lambda>png512Blob.
                 bindE manifest (\<lambda>manifestResponse.
                 Inr (icoBlob, png192Blob, png512Blob, manifestResponse)))))
           in
           (case awaited of
              Inl e \<Rightarrow> (tr, fail st e)
            | Inr (icoBlob, png192Blob, png512Blob, manifestResponse) \<Rightarrow>
                (if \<not> ok manifestResponse
                 then (tr, fail st (FailedToFetchManifest (statusText manifestResponse)))
                 else
                   (let manifestBlob = body manifestResponse;
                        files = [(''favicon.ico'', icoBlob), (''192.png'', png192Blob),
                                 (''512.png'', png512Blob), (''manifest.json'', manifestBlob)];
                        tr = tr @ [GenerateAsync (map fst files)]
                    in
                    (case generateAsync env files of
                       None \<Rightarrow> (tr, fail st ZipFailed)
                     | Some zipBlob \<Rightarrow>
                         (tr @ [CreateObjectURL],
                          st\<lparr>zipBlobUrl := Some (createObjectURL env zipBlob),
                             status := Success\<rparr>)))))))"

definition revoke :: "string option \<Rightarrow> event list" where
  "revoke url = (case url of None \<Rightarrow> [] | Some u \<Rightarrow> [RevokeObjectURL u])"

definition handleFileSelect :: "env \<Rightarrow> state \<Rightarrow> File \<Rightarrow> event list \<times> state" where
  "handleFileSelect env st0 file =
     (let tr = revoke (pngPreviewUrl env st0) @ revoke (zipBlobUrl st0);
          st = st0\<lparr>zipBlobUrl := None, error := None\<rparr>
      in
      if type' file \<noteq> ''image/png''
      then (tr, st\<lparr>error := Some InvalidFileType, status := Error, pngFile := None\<rparr>)
      else
        case handleConvert env (st\<lparr>pngFile := Some file\<rparr>) file of
          (tr', st') \<Rightarrow> (tr @ tr', st'))"

subsection \<open>Reading a container back\<close>

text \<open>
  The reader of the icon container, written from the layout of the specification: a
  6-byte header (reserved, image type, image count, each a little-endian uint16), then
  one 16-byte directory row for each image: width byte, height byte, palette count,
  reserved byte, colour planes (uint16), bits per pixel (uint16), data size (uint32),
  data offset (uint32). The source has no reader; this one is what the round trip of the
  specification is measured with.
\<close>

fun leNat :: "u8 list \<Rightarrow> nat" where
  "leNat [] = 0"
| "leNat (b # bs) = unat b + 256 * leNat bs"

definition getUint16 :: "u8 list \<Rightarrow> nat \<Rightarrow> bool \<Rightarrow> nat option" where
  "getUint16 view byteOffset littleEndian =
     (if byteOffset + 2 \<le> length view
      then Some (leNat ((if littleEndian then id else rev) (take 2 (drop byteOffset view))))
      else None)"

definition getUint8 :: "u8 list \<Rightarrow> nat \<Rightarrow> nat option" where
  "getUint8 view byteOffset =
     (if byteOffset + 1 \<le> length view then Some (unat (view ! byteOffset)) else None)"

definition getUint32 :: "u8 list \<Rightarrow> nat \<Rightarrow> bool \<Rightarrow> nat option" where
  "getUint32 view byteOffset littleEndian =
     (if byteOffset + 4 \<le> length view
      then Some (leNat ((if littleEndian then id else rev) (take 4 (drop byteOffset view))))
      else None)"

record IconDirectoryEntry =
  width_byte :: nat
  height_byte :: nat
  colorCount :: nat
  reserved :: nat
  colorPlanes :: nat
  bitsPerPixel :: nat
  dataSize :: nat
  dataOffset :: nat

definition parseEntry :: "u8 list \<Rightarrow> IconDirectoryEntry" where
  "parseEntry row =
     \<lparr>width_byte = unat (row ! 0), height_byte = unat (row ! 1),
      colorCount = unat (row ! 2), reserved = unat (row ! 3),
      colorPlanes = leNat (take 2 (drop 4 row)),
      bitsPerPixel = leNat (take 2 (drop 6 row)),
      dataSize = leNat (take 4 (drop 8 row)),
      dataOffset = leNat (take 4 (drop 12 row))\<rparr>"

fun parseRows :: "nat \<Rightarrow> u8 list \<Rightarrow> IconDirectoryEntry list" where
  "parseRows 0 bytes = []"
| "parseRows (Suc n) bytes = parseEntry (take 16 bytes) # parseRows n (drop 16 bytes)"

definition parseIco :: "u8 list \<Rightarrow> IconDirectoryEntry list option" where
  "parseIco file =
     (case getUint16 file 4 True of
        None \<Rightarrow> None
      | Some imageCount \<Rightarrow>
          if length file < 6 + 16 * imageCount then None
          else Some (parseRows imageCount (drop 6 file)))"

text \<open>The size a width or height byte stands for: 0 stands for 256.\<close>

definition sizeOfByte :: "nat \<Rightarrow> nat" where
  "sizeOfByte b = (if b = 0 then 256 else b)"

text \<open>
  The bytes \<open>[byteOffset, byteOffset + n)\<close> of a file; there are none when the range leaves
  the file.
\<close>

definition slice :: "u8 list \<Rightarrow> nat \<Rightarrow> nat \<Rightarrow> u8 list option" where
  "slice file byteOffset n =
     (if byteOffset + n \<le> length file then Some (take n (drop byteOffset file)) else None)"

subsection \<open>A concrete browser and concrete inputs\<close>

text \<open>
  A browser in which every step succeeds; its encoder returns four bytes, the first of
  them the canvas width, and no blob for a canvas without pixels. \<open>noContextEnv\<close> is the
  same browser without a 2D context.
\<close>

definition okEnv :: env where
  "okEnv =
     \<lparr>readAsDataURL = (\<lambda>f. ReaderString ''data:image/png;base64,''),
      decodeImage = (\<lambda>u. Some \<lparr>width = 40, height = 33, src = u\<rparr>),
      getContext = (\<lambda>c. True),
      toBlob = (\<lambda>c. if width c = 0 \<or> height c = 0 then None
                     else Some [of_nat (width c), 80, 78, 71]),
      fetch = (\<lambda>u. Some \<lparr>ok = True, statusText = ''OK'',
                               body = \<lparr>arrayBuffer = [123, 125], type' = ''application/json''\<rparr>\<rparr>),
      generateAsync = (\<lambda>fs. Some \<lparr>arrayBuffer = concat (map (arrayBuffer \<circ> snd) fs),
                                     type' = ''application/zip''\<rparr>),
      createObjectURL = (\<lambda>b. ''blob:'' @ type' b)\<rparr>"

definition noContextEnv :: env where
  "noContextEnv = okEnv\<lparr>getContext := (\<lambda>c. False)\<rparr>"

definition img40x33 :: HTMLImageElement where
  "img40x33 = \<lparr>width = 40, height = 33, src = ''data:image/png;base64,''\<rparr>"

definition img300x300 :: HTMLImageElement where
  "img300x300 = \<lparr>width = 300, height = 300, src = ''data:image/png;base64,''\<rparr>"

definition img15x15 :: HTMLImageElement where
  "img15x15 = \<lparr>width = 15, height = 15, src = ''data:image/png;base64,''\<rparr>"

definition jpegFile :: File where
  "jpegFile = \<lparr>arrayBuffer = [255, 216, 255], type' = ''image/jpeg'', name = ''photo.jpg''\<rparr>"

definition img16x16 :: HTMLImageElement where
  "img16x16 = \<lparr>width = 16, height = 16, src = ''data:image/png;base64,''\<rparr>"

definition pngFile0 :: File where
  "pngFile0 = \<lparr>arrayBuffer = [137, 80, 78, 71], type' = ''image/png'', name = ''icon.png''\<rparr>"

text \<open>The state after a successful conversion of \<open>pngFile0\<close>.\<close>

definition convertedState :: state where
  "convertedState =
     \<lparr>pngFile = Some pngFile0, zipBlobUrl = Some ''blob:application/zip'',
      status = Success, error = None\<rparr>"

text \<open>
  What \<^verbatim>\<open>generateIcoBlob\<close> returns in that browser for a 40 by 33 and for a 300 by
  300 source, and the directory of the first.
\<close>

definition ico40x33 :: Blob where
  "ico40x33 =
     \<lparr>arrayBuffer =
        [0, 0, 1, 0, 2, 0,
         32, 32, 0, 0, 0, 0, 0, 0, 4, 0, 0, 0, 38, 0, 0, 0,
         16, 16, 0, 0, 0, 0, 0, 0, 4, 0, 0, 0, 42, 0, 0, 0,
         32, 80, 78, 71,
         16, 80, 78, 71],
      type' = ''image/x-icon''\<rparr>"

definition trace40x33 :: "event list" where
  "trace40x33 =
     [DrawImage img40x33 32, CanvasToBlob 32, DrawImage img40x33 16, CanvasToBlob 16]"

definition dir40x33 :: "IconDirectoryEntry list" where
  "dir40x33 =
     [\<lparr>width_byte = 32, height_byte = 32, colorCount = 0, reserved = 0,
       colorPlanes = 0, bitsPerPixel = 0, dataSize = 4, dataOffset = 38\<rparr>,
      \<lparr>width_byte = 16, height_byte = 16, colorCount = 0, reserved = 0,
       colorPlanes = 0, bitsPerPixel = 0, dataSize = 4, dataOffset = 42\<rparr>]"

definition ico300x300 :: Blob where
  "ico300x300 =
     \<lparr>arrayBuffer =
        [0, 0, 1, 0, 6, 0,
         0, 0, 0, 0, 0, 0, 0, 0, 4, 0, 0, 0, 102, 0, 0, 0,
         128, 128, 0, 0, 0, 0, 0, 0, 4, 0, 0, 0, 106, 0, 0, 0,
         64, 64, 0, 0, 0, 0, 0, 0, 4, 0, 0, 0, 110, 0, 0, 0,
         48, 48, 0, 0, 0, 0, 0, 0, 4, 0, 0, 0, 114, 0, 0, 0,
         32, 32, 0, 0, 0, 0, 0, 0, 4, 0, 0, 0, 118, 0, 0, 0,
         16, 16, 0, 0, 0, 0, 0, 0, 4, 0, 0, 0, 122, 0, 0, 0,
         0, 80, 78, 71,
         128, 80, 78, 71,
         64, 80, 78, 71,
         48, 80, 78, 71,
         32, 80, 78, 71,
         16, 80, 78, 71],
      type' = ''image/x-icon''\<rparr>"

definition trace300x300 :: "event list" where
  "trace300x300 =
     [DrawImage img300x300 256, CanvasToBlob 256, DrawImage img300x300 128, CanvasToBlob 128,
      DrawImage img300x300 64, CanvasToBlob 64, DrawImage img300x300 48, CanvasToBlob 48,
      DrawImage img300x300 32, CanvasToBlob 32, DrawImage img300x300 16, CanvasToBlob 16]"

subsection \<open>The layout that the writes produce\<close>

text \<open>
  The bytes of a finished container, as lists: the header, the directory rows and the
  image data. \<open>dirEntries\<close> is what the reader returns for these rows; \<open>sizesOf\<close> is
  the value of \<^verbatim>\<open>sizes\<close> in \<^verbatim>\<open>generateIcoBlob\<close>; \<open>blankCanvas\<close> is the canvas of
  \<^verbatim>\<open>generatePngBlob\<close> when the context is asked for, \<open>drawnCanvas\<close> the same canvas when
  it is handed to the encoder.
\<close>

definition entryBytes :: "imageEntry \<Rightarrow> nat \<Rightarrow> u8 list" where
  "entryBytes entry fileOffset =
     (let d = of_nat (if size' entry = 256 then 0 else size' entry)
      in [d, d, 0, 0] @ bytesOf 2 0 True @ bytesOf 2 0 True
         @ bytesOf 4 (length (buffer entry)) True @ bytesOf 4 fileOffset True)"

fun dirBytes :: "nat \<Rightarrow> imageEntry list \<Rightarrow> u8 list" where
  "dirBytes fileOffset [] = []"
| "dirBytes fileOffset (entry # rest) =
     entryBytes entry fileOffset @ dirBytes (fileOffset + length (buffer entry)) rest"

definition headerBytes :: "nat \<Rightarrow> u8 list" where
  "headerBytes n = bytesOf 2 0 True @ bytesOf 2 1 True @ bytesOf 2 n True"

definition imageData :: "imageEntry list \<Rightarrow> u8 list" where
  "imageData entries = concat (map buffer entries)"

definition sizesOf :: "HTMLImageElement \<Rightarrow> nat list" where
  "sizesOf img = filter (\<lambda>s. s \<le> width img \<and> s \<le> height img) standardSizes"

definition blankCanvas :: "int \<Rightarrow> HTMLCanvasElement" where
  "blankCanvas sz =
     createCanvas\<lparr>width := reflectUnsignedLong 300 sz, height := reflectUnsignedLong 150 sz\<rparr>"

definition drawnCanvas :: "HTMLImageElement \<Rightarrow> int \<Rightarrow> HTMLCanvasElement" where
  "drawnCanvas img sz =
     \<lparr>width = reflectUnsignedLong 300 sz, height = reflectUnsignedLong 150 sz,
      imageSmoothingEnabled = True,
      imageSmoothingQuality = ''high'', drawn = [(img, 0, 0, sz, sz)]\<rparr>"

fun dirEntries :: "nat \<Rightarrow> imageEntry list \<Rightarrow> IconDirectoryEntry list" where
  "dirEntries fileOffset [] = []"
| "dirEntries fileOffset (entry # rest) =
     parseEntry (entryBytes entry fileOffset)
       # dirEntries (fileOffset + length (buffer entry)) rest"


section \<open>Lemmas\<close>

subsection \<open>The writes never leave the buffer\<close>

lemma length_bytesOf [simp]: "length (bytesOf n v le) = n"
  by (simp add: bytesOf_def Let_def)

lemma length_writeBytes [simp]:
  "off + length bs \<le> length buf \<Longrightarrow> length (writeBytes buf off bs) = length buf"
  by (simp add: writeBytes_def)

lemma writeBytes_append:
  assumes "off + length as + length bs \<le> length buf" and "off' = off + length as"
  shows "writeBytes (writeBytes buf off as) off' bs = writeBytes buf off (as @ bs)"
proof -
  let ?R = "drop (off + length as) buf"
  have l: "length (take off buf) = off"
    using assms by simp
  have t: "take off' (take off buf @ as @ ?R) = take off buf @ as"
    using assms l by simp
  have "drop (off' + length bs) (take off buf @ as @ ?R) = drop (length bs) ?R"
    using assms l by simp
  then have d: "drop (off' + length bs) (take off buf @ as @ ?R)
      = drop (off + length (as @ bs)) buf"
    by (simp add: add.commute add.left_commute)
  show ?thesis
    unfolding writeBytes_def t d by simp
qed

lemma writeBytes_whole:
  "length bs = length buf \<Longrightarrow> writeBytes buf 0 bs = bs"
  by (simp add: writeBytes_def)

lemma length_entryBytes [simp]: "length (entryBytes e fo) = 16"
  by (simp add: entryBytes_def Let_def)

lemma length_dirBytes [simp]: "length (dirBytes fo es) = 16 * length es"
  by (induction es arbitrary: fo) simp_all

lemma length_headerBytes [simp]: "length (headerBytes n) = 6"
  by (simp add: headerBytes_def)

lemma writeEntry:
  assumes "eo + 16 \<le> length buf"
  shows "bindE (setUint8 buf eo d) (\<lambda>v.
      bindE (setUint8 v (eo + 1) d) (\<lambda>v.
      bindE (setUint8 v (eo + 2) 0) (\<lambda>v.
      bindE (setUint8 v (eo + 3) 0) (\<lambda>v.
      bindE (setUint16 v (eo + 4) 0 True) (\<lambda>v.
      bindE (setUint16 v (eo + 6) 0 True) (\<lambda>v.
      bindE (setUint32 v (eo + 8) n True) (\<lambda>v.
      bindE (setUint32 v (eo + 12) fo True) k)))))))
   = k (writeBytes buf eo ([of_nat d, of_nat d, 0, 0] @ bytesOf 2 0 True @ bytesOf 2 0 True
         @ bytesOf 4 n True @ bytesOf 4 fo True))"
  using assms
  by (simp add: bindE_def setUint8_def setUint16_def setUint32_def writeBytes_append)

lemma writeDirectory_ok:
  "eo + 16 * length es \<le> length buf \<Longrightarrow>
   writeDirectory buf eo fo es = Inr (writeBytes buf eo (dirBytes fo es))"
proof (induction es arbitrary: buf eo fo)
  case Nil
  then show ?case by (simp add: writeBytes_def)
next
  case (Cons e es)
  have r: "eo + 16 \<le> length buf"
    using Cons.prems by simp
  have n: "eo + 16 + 16 * length es \<le> length (writeBytes buf eo (entryBytes e fo))"
    using Cons.prems by simp
  have "writeDirectory buf eo fo (e # es)
      = writeDirectory (writeBytes buf eo (entryBytes e fo)) (eo + 16)
          (fo + length (buffer e)) es"
    unfolding writeDirectory.simps Let_def entryBytes_def by (rule writeEntry [OF r])
  also have "\<dots> = Inr (writeBytes (writeBytes buf eo (entryBytes e fo)) (eo + 16)
                       (dirBytes (fo + length (buffer e)) es))"
    by (rule Cons.IH [OF n])
  also have "\<dots> = Inr (writeBytes buf eo (dirBytes fo (e # es)))"
    using Cons.prems by (simp add: writeBytes_append)
  finally show ?case .
qed

lemma copyImageData_ok:
  "off + length (imageData es) \<le> length buf \<Longrightarrow>
   copyImageData buf off es = Inr (writeBytes buf off (imageData es))"
proof (induction es arbitrary: buf off)
  case Nil
  then show ?case by (simp add: writeBytes_def imageData_def)
next
  case (Cons e es)
  then show ?case
    by (simp add: imageData_def writeBytes_append)
qed

lemma fold_totalSize:
  "fold (\<lambda>entry totalSize. totalSize + length (buffer entry)) es n = n + length (imageData es)"
  by (induction es arbitrary: n) (simp_all add: imageData_def)


lemma assemble_ok:
  fixes es :: "imageEntry list"
  defines "n \<equiv> length es"
  shows "(let headerSize = 6;
       directorySize = 16 * length es;
       totalSize = fold (\<lambda>entry totalSize. totalSize + length (buffer entry))
                     es (headerSize + directorySize);
       finalBuffer = replicate totalSize 0;
       fileOffset = headerSize + directorySize
   in
   bindE (setUint16 finalBuffer 0 0 True) (\<lambda>v.
   bindE (setUint16 v 2 1 True) (\<lambda>v.
   bindE (setUint16 v 4 (length es) True) (\<lambda>v.
   bindE (writeDirectory v headerSize fileOffset es) (\<lambda>v.
   bindE (copyImageData v (headerSize + directorySize) es) (\<lambda>v.
   Inr \<lparr>arrayBuffer = v, type' = ''image/x-icon''\<rparr>))))))
  = Inr \<lparr>arrayBuffer = headerBytes n @ dirBytes (6 + 16 * n) es @ imageData es,
         type' = ''image/x-icon''\<rparr>"
proof -
  let ?buf = "replicate (6 + 16 * n + length (imageData es)) (0 :: u8)"
  have h: "bindE (setUint16 ?buf 0 0 True) (\<lambda>v.
           bindE (setUint16 v 2 1 True) (\<lambda>v.
           bindE (setUint16 v 4 n True) k))
         = k (writeBytes ?buf 0 (headerBytes n))" for k :: "u8 list \<Rightarrow> error + Blob"
    by (simp add: bindE_def setUint16_def writeBytes_append headerBytes_def)
  have d: "writeDirectory (writeBytes ?buf 0 (headerBytes n)) 6 (6 + 16 * n) es
         = Inr (writeBytes ?buf 0 (headerBytes n @ dirBytes (6 + 16 * n) es))"
    by (simp add: writeDirectory_ok writeBytes_append n_def)
  have c: "copyImageData (writeBytes ?buf 0 (headerBytes n @ dirBytes (6 + 16 * n) es))
             (6 + 16 * n) es
         = Inr (headerBytes n @ dirBytes (6 + 16 * n) es @ imageData es)"
    by (simp add: copyImageData_ok writeBytes_append writeBytes_whole n_def)
  show ?thesis
    unfolding Let_def fold_totalSize n_def [symmetric] h
    by (simp add: d c bindE_def)
qed


lemma generatePngBlob_Inr:
  assumes "generatePngBlob env img sz = (tr, Inr b)"
  shows "tr = [DrawImage img sz, CanvasToBlob sz]"
    and "type' b = ''image/png''"
    and "toBlob env (drawnCanvas img sz) = Some (arrayBuffer b)"
    and "getContext env (blankCanvas sz)"
  using assms
  by (auto simp: generatePngBlob_def createCanvas_def drawnCanvas_def blankCanvas_def Let_def
           split: if_splits option.splits)

lemma pngPromises_all:
  assumes "promiseAll (map snd (pngPromises env img ss)) = Inr es"
  shows "map size' es = ss"
    and "\<forall>s \<in> set ss. getContext env (blankCanvas (int s))
                          \<and> toBlob env (drawnCanvas img (int s)) \<noteq> None"
    and "concat (map fst (pngPromises env img ss))
           = concat (map (\<lambda>s. [DrawImage img (int s), CanvasToBlob (int s)]) ss)"
  using assms
proof (induction ss arbitrary: es)
  case Nil
  { case 1 then show ?case by (simp add: pngPromises_def) }
  { case 2 then show ?case by (simp add: pngPromises_def) }
  { case 3 then show ?case by (simp add: pngPromises_def) }
next
  case (Cons s ss)
  obtain tr r where g: "generatePngBlob env img (int s) = (tr, r)"
    by (cases "generatePngBlob env img (int s)")
  { case 1
    then obtain b es' where r: "r = Inr b"
        and es': "promiseAll (map snd (pngPromises env img ss)) = Inr es'"
        and es: "es = \<lparr>size' = s, buffer = arrayBuffer b\<rparr> # es'"
      using g by (cases r; cases "promiseAll (map snd (pngPromises env img ss))")
                 (auto simp: pngPromises_def bindE_def)
    then show ?case using Cons.IH(1) [OF es'] by simp }
  { case 2
    then obtain b es' where r: "r = Inr b"
        and es': "promiseAll (map snd (pngPromises env img ss)) = Inr es'"
        and es: "es = \<lparr>size' = s, buffer = arrayBuffer b\<rparr> # es'"
      using g by (cases r; cases "promiseAll (map snd (pngPromises env img ss))")
                 (auto simp: pngPromises_def bindE_def)
    then show ?case
      using Cons.IH(2) [OF es'] generatePngBlob_Inr(3,4) [OF g [unfolded r]] by simp }
  { case 3
    then obtain b es' where r: "r = Inr b"
        and es': "promiseAll (map snd (pngPromises env img ss)) = Inr es'"
      using g by (cases r; cases "promiseAll (map snd (pngPromises env img ss))")
                 (auto simp: pngPromises_def bindE_def)
    then show ?case
      using Cons.IH(3) [OF es'] generatePngBlob_Inr(1) [OF g [unfolded r]] g
      by (simp add: pngPromises_def) }
qed

lemma generateIcoBlob_Inr:
  assumes "generateIcoBlob env img = (tr, Inr ico)"
  obtains es where "16 \<le> width img" and "16 \<le> height img"
    and "promiseAll (map snd (pngPromises env img (sizesOf img))) = Inr es"
    and "ico = \<lparr>arrayBuffer = headerBytes (length es) @ dirBytes (6 + 16 * length es) es
                               @ imageData es,
                 type' = ''image/x-icon''\<rparr>"
    and "tr = concat (map fst (pngPromises env img (sizesOf img)))"
proof -
  from assms have big: "16 \<le> width img" "16 \<le> height img"
    by (auto simp: generateIcoBlob_def split: if_splits)
  from assms big have tr: "tr = concat (map fst (pngPromises env img (sizesOf img)))"
    and r: "bindE (promiseAll (map snd (pngPromises env img (sizesOf img))))
              (\<lambda>es. Inr \<lparr>arrayBuffer = headerBytes (length es)
                                     @ dirBytes (6 + 16 * length es) es @ imageData es,
                              type' = ''image/x-icon''\<rparr>) = Inr ico"
    unfolding generateIcoBlob_def generateIcoBlob_unguarded_def assemble_ok
      sizesOf_def [symmetric]
    by (auto simp: Let_def split: if_splits)
  from r obtain es where e: "promiseAll (map snd (pngPromises env img (sizesOf img))) = Inr es"
    and i: "ico = \<lparr>arrayBuffer = headerBytes (length es) @ dirBytes (6 + 16 * length es) es
                               @ imageData es,
                 type' = ''image/x-icon''\<rparr>"
    by (cases "promiseAll (map snd (pngPromises env img (sizesOf img)))")
       (auto simp: bindE_def)
  show thesis by (rule that [OF big e i tr])
qed

subsection \<open>The reader on the written bytes\<close>

lemma leNat_snoc: "leNat (bs @ [b]) = leNat bs + 256 ^ length bs * unat b"
  by (induction bs) (simp_all add: algebra_simps)

lemma leNat_bytes: "leNat (map (\<lambda>k. of_nat (v div 256 ^ k)) [0..<n]) = v mod 256 ^ n"
proof (induction n)
  case 0
  then show ?case by simp
next
  case (Suc n)
  have u: "unat (of_nat (v div 256 ^ n) :: u8) = v div 256 ^ n mod 256"
    by (simp add: unat_of_nat)
  have "v mod 256 ^ Suc n = v mod (256 ^ n * 256)"
    by (simp add: mult.commute)
  also have "\<dots> = 256 ^ n * (v div 256 ^ n mod 256) + v mod 256 ^ n"
    by (rule mod_mult2_eq)
  finally have m: "v mod 256 ^ Suc n = v mod 256 ^ n + 256 ^ n * (v div 256 ^ n mod 256)"
    by simp
  have "leNat (map (\<lambda>k. of_nat (v div 256 ^ k)) [0..<Suc n])
      = leNat (map (\<lambda>k. of_nat (v div 256 ^ k)) [0..<n])
        + 256 ^ n * unat (of_nat (v div 256 ^ n) :: u8)"
    by (simp add: leNat_snoc)
  then show ?case
    unfolding Suc u m .
qed

lemma leNat_bytesOf: "leNat (bytesOf n v True) = v mod 256 ^ n"
  by (simp add: bytesOf_def leNat_bytes)

lemma bytesOf2: "bytesOf 2 v True = [of_nat v, of_nat (v div 256)]"
  by (simp add: bytesOf_def numeral_2_eq_2)

lemma parseEntry_entryBytes:
  "parseEntry (entryBytes e fo) =
     \<lparr>width_byte = unat (of_nat (if size' e = 256 then 0 else size' e) :: u8),
      height_byte = unat (of_nat (if size' e = 256 then 0 else size' e) :: u8),
      colorCount = 0, reserved = 0, colorPlanes = 0, bitsPerPixel = 0,
      dataSize = length (buffer e) mod 2 ^ 32,
      dataOffset = fo mod 2 ^ 32\<rparr>"
proof -
  let ?d = "of_nat (if size' e = 256 then 0 else size' e) :: u8"
  let ?row = "entryBytes e fo"
  have row: "?row = [?d, ?d, 0, 0] @ bytesOf 2 0 True @ bytesOf 2 0 True
                      @ bytesOf 4 (length (buffer e)) True @ bytesOf 4 fo True"
    by (simp add: entryBytes_def Let_def)
  have b: "?row ! 0 = ?d" "?row ! 1 = ?d" "?row ! 2 = 0" "?row ! 3 = 0"
    by (simp_all add: row)
  have p: "take 2 (drop 4 ?row) = bytesOf 2 0 True"
    by (simp add: row)
  have q: "take 2 (drop 6 ?row) = bytesOf 2 0 True"
    by (simp add: row)
  have s: "take 4 (drop 8 ?row) = bytesOf 4 (length (buffer e)) True"
    by (simp add: row)
  have t: "take 4 (drop 12 ?row) = bytesOf 4 fo True"
    by (simp add: row)
  show ?thesis
    unfolding parseEntry_def b p q s t leNat_bytesOf by simp
qed

lemma parseRows_dirBytes:
  "parseRows (length es) (dirBytes fo es @ rest) = dirEntries fo es"
  by (induction es arbitrary: fo) simp_all

lemma parseIco_ok:
  assumes "length es < 65536"
  shows "parseIco (headerBytes (length es) @ dirBytes (6 + 16 * length es) es @ imageData es)
           = Some (dirEntries (6 + 16 * length es) es)"
proof -
  let ?n = "length es"
  let ?f = "headerBytes ?n @ dirBytes (6 + 16 * ?n) es @ imageData es"
  have "take 2 (drop 4 ?f) = bytesOf 2 ?n True"
    by (simp add: headerBytes_def)
  then have "getUint16 ?f 4 True = Some ?n"
    using assms by (simp add: getUint16_def leNat_bytesOf)
  then show ?thesis
    by (simp add: parseIco_def parseRows_dirBytes)
qed

lemma length_dirEntries [simp]: "length (dirEntries fo es) = length es"
  by (induction es arbitrary: fo) simp_all

lemma imageData_simps [simp]:
  "imageData [] = []"
  "imageData (e # es) = buffer e @ imageData es"
  "imageData (es @ fs) = imageData es @ imageData fs"
  by (simp_all add: imageData_def)

lemma dirEntries_nth:
  "i < length es \<Longrightarrow>
   dirEntries fo es ! i
     = parseEntry (entryBytes (es ! i) (fo + length (imageData (take i es))))"
proof (induction es arbitrary: fo i)
  case Nil
  then show ?case by simp
next
  case (Cons e es)
  then show ?case
    by (cases i) (simp_all add: add.assoc)
qed

lemma imageData_take_Suc:
  "i < length es \<Longrightarrow>
   imageData (take (Suc i) es) = imageData (take i es) @ buffer (es ! i)"
  by (simp add: take_Suc_conv_app_nth)

lemma imageData_split:
  "i < length es \<Longrightarrow>
   imageData es = imageData (take i es) @ buffer (es ! i) @ imageData (drop (Suc i) es)"
proof -
  assume "i < length es"
  then have "es = take i es @ es ! i # drop (Suc i) es"
    by (simp add: id_take_nth_drop)
  then have "imageData es = imageData (take i es @ es ! i # drop (Suc i) es)"
    by simp
  then show ?thesis by simp
qed

subsection \<open>How a run can fail\<close>

lemma generatePngBlob_Inl:
  assumes "generatePngBlob env img sz = (tr, Inl e)"
  shows "(e = CouldNotGetCanvasContext \<and> \<not> getContext env (blankCanvas sz))
       \<or> (e = FailedToCreateBlob sz \<and> toBlob env (drawnCanvas img sz) = None)"
  using assms
  by (auto simp: generatePngBlob_def createCanvas_def drawnCanvas_def blankCanvas_def Let_def
           split: if_splits option.splits)

lemma pngPromises_Inl:
  "promiseAll (map snd (pngPromises env img ss)) = Inl e \<Longrightarrow> e \<noteq> NoEligibleSizes"
proof (induction ss)
  case Nil
  then show ?case by (simp add: pngPromises_def)
next
  case (Cons s ss)
  obtain tr r where g: "generatePngBlob env img (int s) = (tr, r)"
    by (cases "generatePngBlob env img (int s)")
  show ?case
  proof (cases r)
    case (Inl e')
    with Cons.prems g have "e = e'"
      by (simp add: pngPromises_def bindE_def)
    with generatePngBlob_Inl [OF g [unfolded Inl]] show ?thesis by auto
  next
    case (Inr b)
    with Cons.prems g have "promiseAll (map snd (pngPromises env img ss)) = Inl e"
      by (cases "promiseAll (map snd (pngPromises env img ss))")
         (auto simp: pngPromises_def bindE_def)
    then show ?thesis by (rule Cons.IH)
  qed
qed

lemma sixteen_selected:
  "16 \<le> width img \<Longrightarrow> 16 \<le> height img \<Longrightarrow> 16 \<in> set (sizesOf img)"
  by (simp add: sizesOf_def standardSizes_def)

lemma sizesOf_empty: "sizesOf img = [] \<longleftrightarrow> width img < 16 \<or> height img < 16"
proof
  assume "sizesOf img = []"
  then have "16 \<notin> set (sizesOf img)" by simp
  then show "width img < 16 \<or> height img < 16"
    using sixteen_selected [of img] by fastforce
next
  assume "width img < 16 \<or> height img < 16"
  then have "\<forall>s \<in> set standardSizes. \<not> (s \<le> width img \<and> s \<le> height img)"
    by (auto simp: standardSizes_def)
  then show "sizesOf img = []"
    unfolding sizesOf_def filter_empty_conv .
qed

lemma unguarded_NoEligibleSizes:
  "snd (generateIcoBlob_unguarded env img) = Inl NoEligibleSizes \<longleftrightarrow> sizesOf img = []"
proof (cases "sizesOf img = []")
  case True
  then show ?thesis
    by (simp add: generateIcoBlob_unguarded_def sizesOf_def [symmetric])
next
  case False
  have "snd (generateIcoBlob_unguarded env img) \<noteq> Inl NoEligibleSizes"
  proof
    assume a: "snd (generateIcoBlob_unguarded env img) = Inl NoEligibleSizes"
    have "snd (generateIcoBlob_unguarded env img)
        = bindE (promiseAll (map snd (pngPromises env img (sizesOf img))))
            (\<lambda>es. Inr \<lparr>arrayBuffer = headerBytes (length es)
                                   @ dirBytes (6 + 16 * length es) es @ imageData es,
                            type' = ''image/x-icon''\<rparr>)"
      unfolding generateIcoBlob_unguarded_def assemble_ok sizesOf_def [symmetric]
      using False by (simp add: Let_def)
    with a have "promiseAll (map snd (pngPromises env img (sizesOf img))) = Inl NoEligibleSizes"
      by (cases "promiseAll (map snd (pngPromises env img (sizesOf img)))")
         (auto simp: bindE_def)
    then show False using pngPromises_Inl by blast
  qed
  with False show ?thesis by simp
qed


subsection \<open>The selected sizes\<close>

lemma pngPromises_pngBytes:
  "promiseAll (map snd (pngPromises env img ss)) = Inr es \<Longrightarrow>
   list_all2 (\<lambda>s e. pngBytes env img s = Some (buffer e)) ss es"
proof (induction ss arbitrary: es)
  case Nil
  then show ?case by (simp add: pngPromises_def)
next
  case (Cons s ss)
  obtain tr r where g: "generatePngBlob env img (int s) = (tr, r)"
    by (cases "generatePngBlob env img (int s)")
  from Cons.prems obtain b es' where r: "r = Inr b"
      and es': "promiseAll (map snd (pngPromises env img ss)) = Inr es'"
      and es: "es = \<lparr>size' = s, buffer = arrayBuffer b\<rparr> # es'"
    using g by (cases r; cases "promiseAll (map snd (pngPromises env img ss))")
               (auto simp: pngPromises_def bindE_def)
  have "pngBytes env img s = Some (arrayBuffer b)"
    using g r by (simp add: pngBytes_def)
  then show ?case
    using Cons.IH [OF es'] es by simp
qed

lemma filter_le_suffix:
  "sorted_wrt (>) xs \<Longrightarrow> suffix (filter (\<lambda>s. s \<le> (m :: nat)) xs) xs"
proof (induction xs)
  case Nil
  then show ?case by simp
next
  case (Cons x xs)
  show ?case
  proof (cases "x \<le> m")
    case True
    with Cons.prems have "\<forall>y \<in> set xs. y \<le> m" by auto
    then have "filter (\<lambda>s. s \<le> m) xs = xs" by simp
    with True show ?thesis by simp
  next
    case False
    with Cons show ?thesis by (simp add: suffix_Cons)
  qed
qed

lemma sizesOf_min: "sizesOf img = filter (\<lambda>s. s \<le> min (width img) (height img)) standardSizes"
  by (simp add: sizesOf_def)

lemma sorted_standardSizes: "sorted_wrt (>) standardSizes"
  by (simp add: standardSizes_def)

lemma sizesOf_suffix: "suffix (sizesOf img) standardSizes"
  unfolding sizesOf_min by (rule filter_le_suffix [OF sorted_standardSizes])

lemma sizesOf_sorted: "sorted_wrt (>) (sizesOf img)"
  unfolding sizesOf_def by (rule sorted_wrt_filter [OF sorted_standardSizes])

lemma sizesOf_subset: "set (sizesOf img) \<subseteq> set standardSizes"
  by (simp add: sizesOf_def)

lemma sizesOf_length: "length (sizesOf img) \<le> 6"
proof -
  have "length (sizesOf img) \<le> length standardSizes"
    unfolding sizesOf_def by (rule length_filter_le)
  then show ?thesis by (simp add: standardSizes_def)
qed

lemma sizesOf_last: "sizesOf img \<noteq> [] \<Longrightarrow> last (sizesOf img) = 16"
proof -
  assume n: "sizesOf img \<noteq> []"
  from sizesOf_suffix obtain zs where "standardSizes = zs @ sizesOf img"
    by (auto simp: suffix_def)
  then have "last standardSizes = last (zs @ sizesOf img)"
    by (rule arg_cong)
  also have "\<dots> = last (sizesOf img)"
    using n by simp
  finally show ?thesis by (simp add: standardSizes_def)
qed

lemma sizesOf_card:
  "card {s \<in> set standardSizes. s \<le> width img \<and> s \<le> height img} = length (sizesOf img)"
proof -
  have "distinct standardSizes" by (simp add: standardSizes_def)
  then have "distinct (sizesOf img)" by (simp add: sizesOf_def)
  then have "card (set (sizesOf img)) = length (sizesOf img)"
    by (rule distinct_card)
  then show ?thesis by (simp add: sizesOf_def)
qed

subsection \<open>Rows, offsets and slices\<close>

lemma size_byte:
  "s \<in> set standardSizes \<Longrightarrow>
   unat (of_nat (if s = 256 then 0 else s) :: u8) = (if s = 256 then 0 else s)"
  by (auto simp: standardSizes_def)

lemma size_of_size_byte:
  "s \<in> set standardSizes \<Longrightarrow>
   sizeOfByte (unat (of_nat (if s = 256 then 0 else s) :: u8)) = s"
  by (auto simp: standardSizes_def sizeOfByte_def)

lemma length_imageData: "length (imageData es) = sum_list (map (\<lambda>e. length (buffer e)) es)"
  by (induction es) simp_all

lemma dirEntries_sizes:
  "\<forall>e \<in> set es. size' e \<in> set standardSizes \<Longrightarrow>
   map (\<lambda>d. sizeOfByte (width_byte d)) (dirEntries fo es) = map size' es
   \<and> map (\<lambda>d. sizeOfByte (height_byte d)) (dirEntries fo es) = map size' es"
  by (induction es arbitrary: fo) (simp_all add: parseEntry_entryBytes size_of_size_byte)

lemma dirEntries_dataSize:
  "sum_list (map dataSize (dirEntries fo es))
     = sum_list (map (\<lambda>e. length (buffer e) mod 2 ^ 32) es)"
  by (induction es arbitrary: fo) (simp_all add: parseEntry_entryBytes)

lemma dirBytes_row:
  "i < length es \<Longrightarrow>
   take 16 (drop (16 * i) (dirBytes fo es @ rest))
     = entryBytes (es ! i) (fo + length (imageData (take i es)))"
proof (induction es arbitrary: fo i)
  case Nil
  then show ?case by simp
next
  case (Cons e es)
  show ?case
  proof (cases i)
    case 0
    then show ?thesis by simp
  next
    case (Suc j)
    with Cons.prems have j: "j < length es" by simp
    have "drop (16 * i) (dirBytes fo (e # es) @ rest)
        = drop (16 * j) (dirBytes (fo + length (buffer e)) es @ rest)"
      using Suc by simp
    then show ?thesis
      using Cons.IH [OF j] Suc by (simp add: add.assoc)
  qed
qed

lemma imageData_bounds:
  assumes "i < length es"
  shows "length (imageData (take i es)) + length (buffer (es ! i)) \<le> length (imageData es)"
proof -
  have "length (imageData es)
      = length (imageData (take i es)) + length (buffer (es ! i))
        + length (imageData (drop (Suc i) es))"
    using imageData_split [OF assms] by (metis length_append add.assoc)
  then show ?thesis by simp
qed

lemma dirEntries_small:
  assumes "i < length es" and "fo + length (imageData es) < 2 ^ 32"
  shows "dataOffset (dirEntries fo es ! i) = fo + length (imageData (take i es))"
    and "dataSize (dirEntries fo es ! i) = length (buffer (es ! i))"
proof -
  have b: "fo + length (imageData (take i es)) < 2 ^ 32" "length (buffer (es ! i)) < 2 ^ 32"
    using imageData_bounds [OF assms(1)] assms(2) by simp_all
  show "dataOffset (dirEntries fo es ! i) = fo + length (imageData (take i es))"
    using b by (simp add: dirEntries_nth [OF assms(1)] parseEntry_entryBytes)
  show "dataSize (dirEntries fo es ! i) = length (buffer (es ! i))"
    using b by (simp add: dirEntries_nth [OF assms(1)] parseEntry_entryBytes)
qed

lemma slice_image:
  assumes "i < length es" and "length pre = fo"
  shows "slice (pre @ imageData es) (fo + length (imageData (take i es)))
           (length (buffer (es ! i))) = Some (buffer (es ! i))"
proof -
  have "drop (fo + length (imageData (take i es))) (pre @ imageData es)
      = drop (length (imageData (take i es))) (imageData es)"
    using assms(2) by simp
  also have "\<dots> = buffer (es ! i) @ imageData (drop (Suc i) es)"
    by (subst imageData_split [OF assms(1)]) simp
  finally have t: "take (length (buffer (es ! i)))
        (drop (fo + length (imageData (take i es))) (pre @ imageData es)) = buffer (es ! i)"
    by simp
  have "fo + length (imageData (take i es)) + length (buffer (es ! i))
      \<le> length (pre @ imageData es)"
    using imageData_bounds [OF assms(1)] assms(2) by simp
  then show ?thesis
    unfolding slice_def t by simp
qed

lemma header_fields:
  fixes rest :: "u8 list"
  assumes "n < 65536"
  shows "getUint16 (headerBytes n @ rest) 0 True = Some 0"
    and "getUint16 (headerBytes n @ rest) 2 True = Some 1"
    and "getUint16 (headerBytes n @ rest) 4 True = Some n"
proof -
  have "take 2 (drop 0 (headerBytes n @ rest)) = bytesOf 2 0 True"
    "take 2 (drop 2 (headerBytes n @ rest)) = bytesOf 2 1 True"
    "take 2 (drop 4 (headerBytes n @ rest)) = bytesOf 2 n True"
    by (simp_all add: headerBytes_def)
  then show "getUint16 (headerBytes n @ rest) 0 True = Some 0"
    and "getUint16 (headerBytes n @ rest) 2 True = Some 1"
    and "getUint16 (headerBytes n @ rest) 4 True = Some n"
    using assms by (simp_all add: getUint16_def leNat_bytesOf)
qed

lemma row_fields:
  assumes row: "take 16 (drop r view) = entryBytes e fo" and len: "r + 16 \<le> length view"
  shows "getUint8 view r = Some (unat (of_nat (if size' e = 256 then 0 else size' e) :: u8))"
    and "getUint8 view (r + 1)
           = Some (unat (of_nat (if size' e = 256 then 0 else size' e) :: u8))"
    and "getUint8 view (r + 2) = Some 0"
    and "getUint8 view (r + 3) = Some 0"
    and "getUint16 view (r + 4) True = Some 0"
    and "getUint16 view (r + 6) True = Some 0"
    and "getUint32 view (r + 8) True = Some (length (buffer e) mod 2 ^ 32)"
    and "getUint32 view (r + 12) True = Some (fo mod 2 ^ 32)"
proof -
  let ?d = "of_nat (if size' e = 256 then 0 else size' e) :: u8"
  let ?row = "entryBytes e fo"
  have eb: "?row = [?d, ?d, 0, 0] @ bytesOf 2 0 True @ bytesOf 2 0 True
                      @ bytesOf 4 (length (buffer e)) True @ bytesOf 4 fo True"
    by (simp add: entryBytes_def Let_def)
  have nth: "view ! (r + k) = ?row ! k" if "k < 16" for k
    using that len by (simp add: row [symmetric])
  have sub: "take m (drop (r + k) view) = take m (drop k ?row)" if "k + m \<le> 16" for k m
  proof -
    have "take m (drop k (take 16 (drop r view))) = take m (drop (r + k) view)"
      using that by (simp add: drop_take min_def add.commute)
    then show ?thesis by (simp add: row)
  qed
  have b: "?row ! 0 = ?d" "?row ! 1 = ?d" "?row ! 2 = 0" "?row ! 3 = 0"
    by (simp_all add: eb)
  from nth [of 0] b(1) len
  show "getUint8 view r = Some (unat ?d)"
    by (simp add: getUint8_def)
  from nth [of 1] b(2) len
  show "getUint8 view (r + 1) = Some (unat ?d)"
    by (simp add: getUint8_def)
  from nth [of 2] b(3) len
  show "getUint8 view (r + 2) = Some 0"
    by (simp add: getUint8_def)
  from nth [of 3] b(4) len
  show "getUint8 view (r + 3) = Some 0"
    by (simp add: getUint8_def)
  have "take 2 (drop 4 ?row) = bytesOf 2 0 True"
    by (simp add: eb)
  with sub [of 4 2] len
  show "getUint16 view (r + 4) True = Some 0"
    by (simp add: getUint16_def leNat_bytesOf)
  have "take 2 (drop 6 ?row) = bytesOf 2 0 True"
    by (simp add: eb)
  with sub [of 6 2] len
  show "getUint16 view (r + 6) True = Some 0"
    by (simp add: getUint16_def leNat_bytesOf)
  have "take 4 (drop 8 ?row) = bytesOf 4 (length (buffer e)) True"
    by (simp add: eb)
  with sub [of 8 4] len
  show "getUint32 view (r + 8) True = Some (length (buffer e) mod 2 ^ 32)"
    by (simp add: getUint32_def leNat_bytesOf)
  have "take 4 (drop 12 ?row) = bytesOf 4 fo True"
    by (simp add: eb)
  with sub [of 12 4] len
  show "getUint32 view (r + 12) True = Some (fo mod 2 ^ 32)"
    by (simp add: getUint32_def leNat_bytesOf)
qed

subsection \<open>A successful run\<close>

lemma run_layout:
  assumes "generateIcoBlob env img = (tr, Inr ico)"
  obtains es where "map size' es = sizesOf img"
    and "list_all2 (\<lambda>s e. pngBytes env img s = Some (buffer e)) (sizesOf img) es"
    and "arrayBuffer ico
           = headerBytes (length es) @ dirBytes (6 + 16 * length es) es @ imageData es"
    and "parseIco (arrayBuffer ico) = Some (dirEntries (6 + 16 * length es) es)"
    and "tr = concat (map (\<lambda>s. [DrawImage img (int s), CanvasToBlob (int s)]) (sizesOf img))"
    and "sizesOf img \<noteq> []"
proof -
  from assms obtain es where big: "16 \<le> width img" "16 \<le> height img"
    and p: "promiseAll (map snd (pngPromises env img (sizesOf img))) = Inr es"
    and i: "ico = \<lparr>arrayBuffer = headerBytes (length es) @ dirBytes (6 + 16 * length es) es
                               @ imageData es,
                 type' = ''image/x-icon''\<rparr>"
    and t: "tr = concat (map fst (pngPromises env img (sizesOf img)))"
    by (rule generateIcoBlob_Inr)
  have m: "map size' es = sizesOf img"
    by (rule pngPromises_all(1) [OF p])
  have l: "list_all2 (\<lambda>s e. pngBytes env img s = Some (buffer e)) (sizesOf img) es"
    by (rule pngPromises_pngBytes [OF p])
  have a: "arrayBuffer ico
           = headerBytes (length es) @ dirBytes (6 + 16 * length es) es @ imageData es"
    by (simp add: i)
  have "length es = length (sizesOf img)"
    using m by (metis length_map)
  then have "length es < 65536"
    using sizesOf_length [of img] by simp
  then have q: "parseIco (arrayBuffer ico) = Some (dirEntries (6 + 16 * length es) es)"
    unfolding a by (rule parseIco_ok)
  have t': "tr = concat (map (\<lambda>s. [DrawImage img (int s), CanvasToBlob (int s)])
                           (sizesOf img))"
    unfolding t by (rule pngPromises_all(3) [OF p])
  have n: "sizesOf img \<noteq> []"
    using big by (simp add: sizesOf_empty)
  show thesis by (rule that [OF m l a q t' n])
qed

lemma generatePngBlob_ok:
  assumes "getContext env (blankCanvas sz)" and "toBlob env (drawnCanvas img sz) = Some bytes"
  shows "generatePngBlob env img sz
           = ([DrawImage img sz, CanvasToBlob sz],
              Inr \<lparr>arrayBuffer = bytes, type' = ''image/png''\<rparr>)"
  using assms
  by (simp add: generatePngBlob_def createCanvas_def drawnCanvas_def blankCanvas_def Let_def)

lemma pngPromises_ok:
  assumes "\<forall>s \<in> set ss. getContext env (blankCanvas (int s))
                          \<and> toBlob env (drawnCanvas img (int s)) \<noteq> None"
  shows "\<exists>es. promiseAll (map snd (pngPromises env img ss)) = Inr es"
  using assms
proof (induction ss)
  case Nil
  then show ?case by (simp add: pngPromises_def)
next
  case (Cons s ss)
  from Cons.prems obtain bytes where c: "getContext env (blankCanvas (int s))"
    and b: "toBlob env (drawnCanvas img (int s)) = Some bytes"
    by auto
  from Cons obtain es where es: "promiseAll (map snd (pngPromises env img ss)) = Inr es"
    by auto
  have "promiseAll (map snd (pngPromises env img (s # ss)))
      = Inr (\<lparr>size' = s, buffer = bytes\<rparr> # es)"
    using es generatePngBlob_ok [OF c b] by (simp add: pngPromises_def bindE_def)
  then show ?case by blast
qed

lemma generateIcoBlob_ok:
  assumes "16 \<le> width img" and "16 \<le> height img"
    and "promiseAll (map snd (pngPromises env img (sizesOf img))) = Inr es"
  shows "\<exists>tr ico. generateIcoBlob env img = (tr, Inr ico)"
proof -
  have n: "sizesOf img \<noteq> []"
    using assms(1,2) by (simp add: sizesOf_empty)
  have "snd (generateIcoBlob env img)
      = bindE (promiseAll (map snd (pngPromises env img (sizesOf img))))
          (\<lambda>es. Inr \<lparr>arrayBuffer = headerBytes (length es)
                                 @ dirBytes (6 + 16 * length es) es @ imageData es,
                          type' = ''image/x-icon''\<rparr>)"
    unfolding generateIcoBlob_def generateIcoBlob_unguarded_def assemble_ok
      sizesOf_def [symmetric]
    using assms(1,2) n by (simp add: Let_def)
  then have "\<exists>ico. snd (generateIcoBlob env img) = Inr ico"
    by (simp add: assms(3) bindE_def)
  then show ?thesis
    by (cases "generateIcoBlob env img") auto
qed

lemma generateIcoBlob_succeeds_iff:
  assumes "16 \<le> width img" and "16 \<le> height img"
  shows "(\<exists>tr ico. generateIcoBlob env img = (tr, Inr ico))
     \<longleftrightarrow> (\<forall>s \<in> set (sizesOf img). getContext env (blankCanvas (int s))
                          \<and> toBlob env (drawnCanvas img (int s)) \<noteq> None)"
proof
  assume "\<exists>tr ico. generateIcoBlob env img = (tr, Inr ico)"
  then obtain tr ico where "generateIcoBlob env img = (tr, Inr ico)"
    by blast
  then obtain es where "promiseAll (map snd (pngPromises env img (sizesOf img))) = Inr es"
    by (rule generateIcoBlob_Inr)
  then show "\<forall>s \<in> set (sizesOf img). getContext env (blankCanvas (int s))
                          \<and> toBlob env (drawnCanvas img (int s)) \<noteq> None"
    by (rule pngPromises_all(2))
next
  assume "\<forall>s \<in> set (sizesOf img). getContext env (blankCanvas (int s))
                          \<and> toBlob env (drawnCanvas img (int s)) \<noteq> None"
  then obtain es where "promiseAll (map snd (pngPromises env img (sizesOf img))) = Inr es"
    using pngPromises_ok by blast
  then show "\<exists>tr ico. generateIcoBlob env img = (tr, Inr ico)"
    by (rule generateIcoBlob_ok [OF assms])
qed

subsection \<open>The concrete runs\<close>

lemma bytesOf4:
  "bytesOf 4 v True
     = [of_nat v, of_nat (v div 256), of_nat (v div 65536), of_nat (v div 16777216)]"
proof -
  have "[0..<4] = [0, 1, 2, 3]"
    by (simp add: upt_rec)
  then show ?thesis
    by (simp add: bytesOf_def)
qed

lemma sizesOf_40x33: "sizesOf img40x33 = [32, 16]"
  by (simp add: sizesOf_def img40x33_def standardSizes_def)

lemma reflectUnsignedLong_in_range:
  "0 \<le> v \<Longrightarrow> v \<le> 2147483647 \<Longrightarrow> reflectUnsignedLong dflt v = nat v"
  by (simp add: reflectUnsignedLong_def Let_def nat_le_iff)

lemma png_okEnv:
  "0 < sz \<Longrightarrow> sz \<le> 2147483647 \<Longrightarrow>
   generatePngBlob okEnv img sz
     = ([DrawImage img sz, CanvasToBlob sz],
        Inr \<lparr>arrayBuffer = [of_nat (nat sz), 80, 78, 71], type' = ''image/png''\<rparr>)"
  by (simp add: generatePngBlob_def okEnv_def Let_def createCanvas_def
        reflectUnsignedLong_in_range)

lemma pngBytes_okEnv:
  "0 < sz \<Longrightarrow> sz \<le> 2147483647 \<Longrightarrow> pngBytes okEnv img sz = Some [of_nat sz, 80, 78, 71]"
  by (simp add: pngBytes_def png_okEnv)

lemma run40x33: "generateIcoBlob okEnv img40x33 = (trace40x33, Inr ico40x33)"
proof -
  have w: "\<not> (width img40x33 < 16 \<or> height img40x33 < 16)"
    by (simp add: img40x33_def)
  have p: "pngPromises okEnv img40x33 [32, 16]
      = [([DrawImage img40x33 32, CanvasToBlob 32],
          Inr \<lparr>size' = 32, buffer = [32, 80, 78, 71]\<rparr>),
         ([DrawImage img40x33 16, CanvasToBlob 16],
          Inr \<lparr>size' = 16, buffer = [16, 80, 78, 71]\<rparr>)]"
    by (simp add: pngPromises_def png_okEnv bindE_def)
  show ?thesis
    unfolding generateIcoBlob_def generateIcoBlob_unguarded_def assemble_ok
      sizesOf_def [symmetric] sizesOf_40x33
    using w
    by (simp add: p Let_def bindE_def trace40x33_def ico40x33_def headerBytes_def
          entryBytes_def imageData_def bytesOf2 bytesOf4)
qed

lemma parseRows_2:
  "parseRows 2 bytes = [parseEntry (take 16 bytes), parseEntry (take 16 (drop 16 bytes))]"
  by (simp add: numeral_2_eq_2)

lemma parse40x33:
  "parseIco (arrayBuffer ico40x33)
     = Some [\<lparr>width_byte = 32, height_byte = 32, colorCount = 0, reserved = 0,
              colorPlanes = 0, bitsPerPixel = 0, dataSize = 4, dataOffset = 38\<rparr>,
             \<lparr>width_byte = 16, height_byte = 16, colorCount = 0, reserved = 0,
              colorPlanes = 0, bitsPerPixel = 0, dataSize = 4, dataOffset = 42\<rparr>]"
proof -
  have "getUint16 (arrayBuffer ico40x33) 4 True = Some 2"
    by (simp add: getUint16_def ico40x33_def)
  then have "parseIco (arrayBuffer ico40x33) = Some (parseRows 2 (drop 6 (arrayBuffer ico40x33)))"
    by (simp add: parseIco_def ico40x33_def)
  then show ?thesis
    by (simp add: parseRows_2 parseEntry_def ico40x33_def)
qed

lemma sizesOf_300x300: "sizesOf img300x300 = [256, 128, 64, 48, 32, 16]"
  by (simp add: sizesOf_def img300x300_def standardSizes_def)

lemma run300x300: "generateIcoBlob okEnv img300x300 = (trace300x300, Inr ico300x300)"
proof -
  have w: "\<not> (width img300x300 < 16 \<or> height img300x300 < 16)"
    by (simp add: img300x300_def)
  have p: "pngPromises okEnv img300x300 [256, 128, 64, 48, 32, 16]
      = map (\<lambda>s. ([DrawImage img300x300 (int s), CanvasToBlob (int s)],
                  Inr \<lparr>size' = s, buffer = [of_nat s, 80, 78, 71]\<rparr>))
          [256, 128, 64, 48, 32, 16]"
    by (simp add: pngPromises_def png_okEnv bindE_def)
  show ?thesis
    unfolding generateIcoBlob_def generateIcoBlob_unguarded_def assemble_ok
      sizesOf_def [symmetric] sizesOf_300x300
    using w
    by (simp add: p Let_def bindE_def trace300x300_def ico300x300_def headerBytes_def
          entryBytes_def imageData_def bytesOf2 bytesOf4)
qed

section \<open>Properties of the specification\<close>

text \<open>
  The directory stores lengths and offsets with \<^verbatim>\<open>setUint32\<close>, which keeps a value
  modulo \<open>2 ^ 32\<close>. Where a property reads these fields back as numbers, it is stated
  for containers of fewer than \<open>2 ^ 32\<close> bytes.
\<close>

text \<open>
  C1. For every source image with width and height at least 16, \<^verbatim>\<open>generateIcoBlob\<close>
  selects exactly the candidates \<open>s\<close> of \<open>[256, 128, 64, 48, 32, 16]\<close> with \<open>s \<le> width\<close>
  and \<open>s \<le> height\<close>: it produces a container exactly when the browser gives a 2D
  context and a PNG blob for each of these sizes; then the sizes it resampled and
  encoded are these sizes, in that order, and the uint16 at byte offset 4 of the
  container is the number of these sizes.
\<close>

theorem imageCount_counts_eligible_sizes:
  assumes "16 \<le> width img" and "16 \<le> height img"
    and "sizes = filter (\<lambda>s. s \<le> width img \<and> s \<le> height img) standardSizes"
  shows "((\<exists>tr ico. generateIcoBlob env img = (tr, Inr ico))
          \<longleftrightarrow> (\<forall>s \<in> set sizes. getContext env (blankCanvas (int s))
                                \<and> toBlob env (drawnCanvas img (int s)) \<noteq> None))
     \<and> (generateIcoBlob env img = (tr, Inr ico) \<longrightarrow>
          tr = concat (map (\<lambda>s. [DrawImage img (int s), CanvasToBlob (int s)]) sizes)
          \<and> getUint16 (arrayBuffer ico) 4 True
              = Some (card {s \<in> set standardSizes. s \<le> width img \<and> s \<le> height img}))"
proof (intro conjI impI)
  have sz: "sizes = sizesOf img"
    using assms(3) by (simp add: sizesOf_def)
  show "(\<exists>tr ico. generateIcoBlob env img = (tr, Inr ico))
          \<longleftrightarrow> (\<forall>s \<in> set sizes. getContext env (blankCanvas (int s))
                                \<and> toBlob env (drawnCanvas img (int s)) \<noteq> None)"
    unfolding sz by (rule generateIcoBlob_succeeds_iff [OF assms(1,2)])
  assume run: "generateIcoBlob env img = (tr, Inr ico)"
  from run obtain es where m: "map size' es = sizesOf img"
    and a: "arrayBuffer ico
           = headerBytes (length es) @ dirBytes (6 + 16 * length es) es @ imageData es"
    and t: "tr = concat (map (\<lambda>s. [DrawImage img (int s), CanvasToBlob (int s)])
                          (sizesOf img))"
    by (rule run_layout)
  show "tr = concat (map (\<lambda>s. [DrawImage img (int s), CanvasToBlob (int s)]) sizes)"
    unfolding sz by (rule t)
  have n: "length es = length (sizesOf img)"
    using m by (metis length_map)
  then have "length es < 65536"
    using sizesOf_length [of img] by simp
  then have "getUint16 (arrayBuffer ico) 4 True = Some (length es)"
    unfolding a by (rule header_fields)
  then show "getUint16 (arrayBuffer ico) 4 True
              = Some (card {s \<in> set standardSizes. s \<le> width img \<and> s \<le> height img})"
    using n by (simp add: sizesOf_card)
qed

theorem imageCount_counts_eligible_sizes_witness:
  "16 \<le> width img16x16 \<and> 16 \<le> height img16x16
   \<and> [16] = filter (\<lambda>s. s \<le> width img16x16 \<and> s \<le> height img16x16) standardSizes
   \<and> getContext okEnv (blankCanvas 16)
   \<and> toBlob okEnv (drawnCanvas img16x16 16) \<noteq> None
   \<and> (\<exists>tr ico. generateIcoBlob okEnv img16x16 = (tr, Inr ico))
   \<and> 16 \<le> width img40x33 \<and> 16 \<le> height img40x33
   \<and> generateIcoBlob okEnv img40x33 = (trace40x33, Inr ico40x33)
   \<and> card {s \<in> set standardSizes. s \<le> width img40x33 \<and> s \<le> height img40x33} = 2
   \<and> getUint16 (arrayBuffer ico40x33) 4 True = Some 2"
proof -
  have w16: "16 \<le> width img16x16" and h16: "16 \<le> height img16x16"
    by (simp_all add: img16x16_def)
  have f16: "[16] = filter (\<lambda>s. s \<le> width img16x16 \<and> s \<le> height img16x16) standardSizes"
    by (simp add: img16x16_def standardSizes_def)
  have c16: "getContext okEnv (blankCanvas 16)"
    and b16: "toBlob okEnv (drawnCanvas img16x16 16) \<noteq> None"
    by (simp_all add: okEnv_def drawnCanvas_def reflectUnsignedLong_in_range)
  have r16: "\<exists>tr ico. generateIcoBlob okEnv img16x16 = (tr, Inr ico)"
    using imageCount_counts_eligible_sizes [OF w16 h16 f16, of okEnv] c16 b16 by simp
  have w: "16 \<le> width img40x33" and h: "16 \<le> height img40x33"
    by (simp_all add: img40x33_def)
  have f: "[32, 16] = filter (\<lambda>s. s \<le> width img40x33 \<and> s \<le> height img40x33) standardSizes"
    using sizesOf_40x33 by (simp add: sizesOf_def)
  have c: "card {s \<in> set standardSizes. s \<le> width img40x33 \<and> s \<le> height img40x33} = 2"
    by (simp add: sizesOf_card sizesOf_40x33)
  have "getUint16 (arrayBuffer ico40x33) 4 True = Some 2"
    using imageCount_counts_eligible_sizes [OF w h f, of okEnv trace40x33 ico40x33]
      run40x33 c by simp
  with w16 h16 f16 c16 b16 r16 w h run40x33 c show ?thesis
    by (intro conjI)
qed

text \<open>
  C2. For every source image with width below 16 or height below 16,
  \<^verbatim>\<open>generateIcoBlob\<close> fails with the ImageTooSmall error. The check is the first step:
  no size has been selected, no call to the browser has been made (the trace is empty,
  so nothing was resampled or encoded), and the result is the error, not a container.
\<close>

theorem generateIcoBlob_too_small:
  assumes "width img < 16 \<or> height img < 16"
  shows "generateIcoBlob env img = ([], Inl ImageTooSmall)"
  using assms by (simp add: generateIcoBlob_def)

theorem generateIcoBlob_too_small_witness:
  "(width img15x15 < 16 \<or> height img15x15 < 16)
   \<and> generateIcoBlob okEnv img15x15 = ([], Inl ImageTooSmall)"
proof -
  have h: "width img15x15 < 16 \<or> height img15x15 < 16"
    by (simp add: img15x15_def)
  show ?thesis
    using h generateIcoBlob_too_small [OF h, of okEnv] by simp
qed

text \<open>
  C3. Round trip. Every produced container (of fewer than \<open>2 ^ 32\<close> bytes, the range of
  its uint32 fields) parses back: the reader finds the 6-byte header and the directory
  rows, the sizes of the rows are exactly the selected sizes, in strictly descending
  order, and for each row the range \<open>[dataOffset, dataOffset + dataSize)\<close> lies within the
  container and its bytes are the PNG bytes that \<^verbatim>\<open>generatePngBlob\<close> produced for that
  size.
\<close>

theorem container_round_trip:
  assumes "generateIcoBlob env img = (tr, Inr ico)"
    and "length (arrayBuffer ico) < 2 ^ 32"
  shows "\<exists>dir. parseIco (arrayBuffer ico) = Some dir
     \<and> map (\<lambda>d. sizeOfByte (width_byte d)) dir
         = filter (\<lambda>s. s \<le> width img \<and> s \<le> height img) standardSizes
     \<and> map (\<lambda>d. sizeOfByte (height_byte d)) dir
         = filter (\<lambda>s. s \<le> width img \<and> s \<le> height img) standardSizes
     \<and> sorted_wrt (>) (map (\<lambda>d. sizeOfByte (width_byte d)) dir)
     \<and> (\<forall>i < length dir.
           dataOffset (dir ! i) + dataSize (dir ! i) \<le> length (arrayBuffer ico)
           \<and> slice (arrayBuffer ico) (dataOffset (dir ! i)) (dataSize (dir ! i))
               = pngBytes env img (sizeOfByte (width_byte (dir ! i)))
           \<and> pngBytes env img (sizeOfByte (width_byte (dir ! i))) \<noteq> None)"
proof -
  from assms(1) obtain es where m: "map size' es = sizesOf img"
    and l: "list_all2 (\<lambda>s e. pngBytes env img s = Some (buffer e)) (sizesOf img) es"
    and a: "arrayBuffer ico
           = headerBytes (length es) @ dirBytes (6 + 16 * length es) es @ imageData es"
    and p: "parseIco (arrayBuffer ico) = Some (dirEntries (6 + 16 * length es) es)"
    by (rule run_layout)
  let ?fo = "6 + 16 * length es"
  let ?dir = "dirEntries ?fo es"
  have std: "\<forall>e \<in> set es. size' e \<in> set standardSizes"
  proof
    fix e assume "e \<in> set es"
    then have "size' e \<in> set (map size' es)" by simp
    then show "size' e \<in> set standardSizes"
      using sizesOf_subset [of img] by (auto simp: m)
  qed
  have sz: "map (\<lambda>d. sizeOfByte (width_byte d)) ?dir = sizesOf img"
    "map (\<lambda>d. sizeOfByte (height_byte d)) ?dir = sizesOf img"
    using dirEntries_sizes [OF std, of ?fo] by (simp_all add: m)
  have small: "?fo + length (imageData es) < 2 ^ 32"
    using assms(2) by (simp add: a)
  have sl: "dataOffset (?dir ! i) + dataSize (?dir ! i) \<le> length (arrayBuffer ico)
           \<and> slice (arrayBuffer ico) (dataOffset (?dir ! i)) (dataSize (?dir ! i))
               = pngBytes env img (sizeOfByte (width_byte (?dir ! i)))
           \<and> pngBytes env img (sizeOfByte (width_byte (?dir ! i))) \<noteq> None"
    if i: "i < length ?dir" for i
  proof -
    from i have i': "i < length es" by simp
    have "sizeOfByte (width_byte (?dir ! i)) = map (\<lambda>d. sizeOfByte (width_byte d)) ?dir ! i"
      using i by simp
    then have s: "sizeOfByte (width_byte (?dir ! i)) = sizesOf img ! i"
      by (simp only: sz)
    have png: "pngBytes env img (sizesOf img ! i) = Some (buffer (es ! i))"
      using list_all2_nthD2 [OF l i'] .
    have do: "dataOffset (?dir ! i) = ?fo + length (imageData (take i es))"
      and ds: "dataSize (?dir ! i) = length (buffer (es ! i))"
      by (rule dirEntries_small [OF i' small])+
    have sl: "slice (arrayBuffer ico) (?fo + length (imageData (take i es)))
            (length (buffer (es ! i))) = Some (buffer (es ! i))"
      using slice_image [OF i', of "headerBytes (length es) @ dirBytes ?fo es" ?fo]
      by (simp add: a)
    have le: "?fo + length (imageData (take i es)) + length (buffer (es ! i))
        \<le> length (arrayBuffer ico)"
      using imageData_bounds [OF i'] by (simp add: a)
    show ?thesis
      unfolding s png do ds sl using le by simp
  qed
  have so: "sorted_wrt (>) (map (\<lambda>d. sizeOfByte (width_byte d)) ?dir)"
    unfolding sz by (rule sizesOf_sorted)
  have c: "parseIco (arrayBuffer ico) = Some ?dir
     \<and> map (\<lambda>d. sizeOfByte (width_byte d)) ?dir
         = filter (\<lambda>s. s \<le> width img \<and> s \<le> height img) standardSizes
     \<and> map (\<lambda>d. sizeOfByte (height_byte d)) ?dir
         = filter (\<lambda>s. s \<le> width img \<and> s \<le> height img) standardSizes
     \<and> sorted_wrt (>) (map (\<lambda>d. sizeOfByte (width_byte d)) ?dir)
     \<and> (\<forall>i < length ?dir.
           dataOffset (?dir ! i) + dataSize (?dir ! i) \<le> length (arrayBuffer ico)
           \<and> slice (arrayBuffer ico) (dataOffset (?dir ! i)) (dataSize (?dir ! i))
               = pngBytes env img (sizeOfByte (width_byte (?dir ! i)))
           \<and> pngBytes env img (sizeOfByte (width_byte (?dir ! i))) \<noteq> None)"
    using p sz [unfolded sizesOf_def] so sl by blast
  show ?thesis by (rule exI) (rule c)
qed

theorem container_round_trip_witness:
  "generateIcoBlob okEnv img40x33 = (trace40x33, Inr ico40x33)
   \<and> length (arrayBuffer ico40x33) < 2 ^ 32
   \<and> parseIco (arrayBuffer ico40x33) = Some dir40x33
   \<and> map (\<lambda>d. sizeOfByte (width_byte d)) dir40x33 = [32, 16]
   \<and> map (\<lambda>d. sizeOfByte (height_byte d)) dir40x33 = [32, 16]
   \<and> slice (arrayBuffer ico40x33) 38 4 = pngBytes okEnv img40x33 32
   \<and> slice (arrayBuffer ico40x33) 42 4 = pngBytes okEnv img40x33 16
   \<and> pngBytes okEnv img40x33 32 = Some [32, 80, 78, 71]
   \<and> pngBytes okEnv img40x33 16 = Some [16, 80, 78, 71]"
proof -
  have s: "length (arrayBuffer ico40x33) < 2 ^ 32"
    by (simp add: ico40x33_def)
  have f: "filter (\<lambda>s. s \<le> width img40x33 \<and> s \<le> height img40x33) standardSizes = [32, 16]"
    using sizesOf_40x33 by (simp add: sizesOf_def)
  have d: "parseIco (arrayBuffer ico40x33) = Some dir40x33"
    by (simp add: parse40x33 dir40x33_def)
  from container_round_trip [OF run40x33 s, unfolded f d]
  have w: "map (\<lambda>d. sizeOfByte (width_byte d)) dir40x33 = [32, 16]"
    and h: "map (\<lambda>d. sizeOfByte (height_byte d)) dir40x33 = [32, 16]"
    and a: "\<forall>i < length dir40x33.
           dataOffset (dir40x33 ! i) + dataSize (dir40x33 ! i) \<le> length (arrayBuffer ico40x33)
           \<and> slice (arrayBuffer ico40x33) (dataOffset (dir40x33 ! i)) (dataSize (dir40x33 ! i))
               = pngBytes okEnv img40x33 (sizeOfByte (width_byte (dir40x33 ! i)))
           \<and> pngBytes okEnv img40x33 (sizeOfByte (width_byte (dir40x33 ! i))) \<noteq> None"
    by simp_all
  have s0: "slice (arrayBuffer ico40x33) 38 4 = pngBytes okEnv img40x33 32"
    using a [rule_format, of 0] by (simp add: dir40x33_def sizeOfByte_def)
  have s1: "slice (arrayBuffer ico40x33) 42 4 = pngBytes okEnv img40x33 16"
    using a [rule_format, of 1] by (simp add: dir40x33_def sizeOfByte_def)
  have p0: "pngBytes okEnv img40x33 32 = Some [32, 80, 78, 71]"
    and p1: "pngBytes okEnv img40x33 16 = Some [16, 80, 78, 71]"
    by (simp_all add: pngBytes_okEnv)
  from run40x33 s d w h s0 s1 p0 p1 show ?thesis
    by (intro conjI)
qed

text \<open>
  C4. Offset monotonicity. In every produced container (of fewer than \<open>2 ^ 32\<close> bytes)
  with \<open>N\<close> entries, the data offset of entry 0 is \<open>6 + 16 * N\<close>, and the data offset of
  each later entry is the data offset of the entry before it plus that entry's data size.
\<close>

theorem offsets_are_cumulative:
  assumes "generateIcoBlob env img = (tr, Inr ico)"
    and "length (arrayBuffer ico) < 2 ^ 32"
  shows "\<exists>dir. parseIco (arrayBuffer ico) = Some dir
     \<and> getUint16 (arrayBuffer ico) 4 True = Some (length dir)
     \<and> 0 < length dir
     \<and> dataOffset (dir ! 0) = 6 + 16 * length dir
     \<and> (\<forall>i. i + 1 < length dir \<longrightarrow>
           dataOffset (dir ! (i + 1)) = dataOffset (dir ! i) + dataSize (dir ! i))"
proof -
  from assms(1) obtain es where m: "map size' es = sizesOf img"
    and a: "arrayBuffer ico
           = headerBytes (length es) @ dirBytes (6 + 16 * length es) es @ imageData es"
    and p: "parseIco (arrayBuffer ico) = Some (dirEntries (6 + 16 * length es) es)"
    and ne: "sizesOf img \<noteq> []"
    by (rule run_layout)
  let ?fo = "6 + 16 * length es"
  let ?dir = "dirEntries ?fo es"
  have n: "length es = length (sizesOf img)"
    using m by (metis length_map)
  then have "length es < 65536"
    using sizesOf_length [of img] by simp
  then have cnt: "getUint16 (arrayBuffer ico) 4 True = Some (length ?dir)"
    unfolding a length_dirEntries by (rule header_fields)
  have pos: "0 < length ?dir"
    using n ne by simp
  have small: "?fo + length (imageData es) < 2 ^ 32"
    using assms(2) by (simp add: a)
  have first: "dataOffset (?dir ! 0) = 6 + 16 * length ?dir"
    using pos dirEntries_small(1) [of 0 es ?fo, OF _ small] by simp
  have step: "dataOffset (?dir ! (i + 1)) = dataOffset (?dir ! i) + dataSize (?dir ! i)"
    if "i + 1 < length ?dir" for i
  proof -
    from that have i: "i < length es" and j: "Suc i < length es" by simp_all
    show ?thesis
      using dirEntries_small [OF i small] dirEntries_small(1) [OF j small]
      by (simp add: imageData_take_Suc [OF i])
  qed
  have c: "parseIco (arrayBuffer ico) = Some ?dir
     \<and> getUint16 (arrayBuffer ico) 4 True = Some (length ?dir)
     \<and> 0 < length ?dir
     \<and> dataOffset (?dir ! 0) = 6 + 16 * length ?dir
     \<and> (\<forall>i. i + 1 < length ?dir \<longrightarrow>
           dataOffset (?dir ! (i + 1)) = dataOffset (?dir ! i) + dataSize (?dir ! i))"
    using p cnt pos first step by (intro conjI allI impI)
  show ?thesis by (rule exI) (rule c)
qed

theorem offsets_are_cumulative_witness:
  "generateIcoBlob okEnv img40x33 = (trace40x33, Inr ico40x33)
   \<and> length (arrayBuffer ico40x33) < 2 ^ 32
   \<and> parseIco (arrayBuffer ico40x33) = Some dir40x33
   \<and> getUint16 (arrayBuffer ico40x33) 4 True = Some (length dir40x33)
   \<and> dataOffset (dir40x33 ! 0) = 6 + 16 * length dir40x33
   \<and> dataOffset (dir40x33 ! 1) = dataOffset (dir40x33 ! 0) + dataSize (dir40x33 ! 0)"
proof -
  have s: "length (arrayBuffer ico40x33) < 2 ^ 32"
    by (simp add: ico40x33_def)
  have d: "parseIco (arrayBuffer ico40x33) = Some dir40x33"
    by (simp add: parse40x33 dir40x33_def)
  have l: "0 + 1 < length dir40x33"
    by (simp add: dir40x33_def)
  from offsets_are_cumulative [OF run40x33 s, unfolded d]
  have c: "getUint16 (arrayBuffer ico40x33) 4 True = Some (length dir40x33)"
    and f: "dataOffset (dir40x33 ! 0) = 6 + 16 * length dir40x33"
    and a: "\<forall>i. i + 1 < length dir40x33 \<longrightarrow>
           dataOffset (dir40x33 ! (i + 1)) = dataOffset (dir40x33 ! i) + dataSize (dir40x33 ! i)"
    by simp_all
  have "dataOffset (dir40x33 ! 1) = dataOffset (dir40x33 ! 0) + dataSize (dir40x33 ! 0)"
    using a [rule_format, OF l] by simp
  with run40x33 s d c f show ?thesis
    by (intro conjI)
qed

text \<open>
  C5. Directory entry layout. In every produced container (of fewer than \<open>2 ^ 32\<close>
  bytes), the row of the \<open>i\<close>-th selected size \<open>s\<close> starts at byte \<open>6 + 16 * i\<close>; its
  bytes 0 and 1 are 0 when \<open>s\<close> is 256 and \<open>s\<close> otherwise, its bytes 2 and 3 are 0, the
  uint16 at its bytes 4 to 5 and the uint16 at its bytes 6 to 7 are 0, and the
  little-endian uint32 at its bytes 8 to 11 is the length of the PNG bytes produced for
  \<open>s\<close>.
\<close>

theorem directory_entry_layout:
  assumes "generateIcoBlob env img = (tr, Inr ico)"
    and "length (arrayBuffer ico) < 2 ^ 32"
    and "i < length (filter (\<lambda>s. s \<le> width img \<and> s \<le> height img) standardSizes)"
    and "s = filter (\<lambda>s. s \<le> width img \<and> s \<le> height img) standardSizes ! i"
    and "row = 6 + 16 * i"
  shows "getUint8 (arrayBuffer ico) row = Some (if s = 256 then 0 else s)
     \<and> getUint8 (arrayBuffer ico) (row + 1) = Some (if s = 256 then 0 else s)
     \<and> getUint8 (arrayBuffer ico) (row + 2) = Some 0
     \<and> getUint8 (arrayBuffer ico) (row + 3) = Some 0
     \<and> getUint16 (arrayBuffer ico) (row + 4) True = Some 0
     \<and> getUint16 (arrayBuffer ico) (row + 6) True = Some 0
     \<and> (\<exists>png. pngBytes env img s = Some png
            \<and> getUint32 (arrayBuffer ico) (row + 8) True = Some (length png))"
proof -
  from assms(1) obtain es where m: "map size' es = sizesOf img"
    and l: "list_all2 (\<lambda>s e. pngBytes env img s = Some (buffer e)) (sizesOf img) es"
    and a: "arrayBuffer ico
           = headerBytes (length es) @ dirBytes (6 + 16 * length es) es @ imageData es"
    by (rule run_layout)
  let ?fo = "6 + 16 * length es"
  let ?view = "arrayBuffer ico"
  let ?e = "es ! i"
  have n: "length es = length (sizesOf img)"
    using m by (metis length_map)
  have i: "i < length es"
    using assms(3) n by (simp add: sizesOf_def)
  have s: "s = size' ?e"
  proof -
    have "size' ?e = map size' es ! i" using i by simp
    then show ?thesis using assms(4) by (simp add: m sizesOf_def)
  qed
  have "i < length (sizesOf img)" and "s = sizesOf img ! i"
    using assms(3,4) by (simp_all add: sizesOf_def)
  then have "s \<in> set (sizesOf img)"
    by simp
  then have std: "size' ?e \<in> set standardSizes"
    using sizesOf_subset [of img] s by auto
  have png: "pngBytes env img s = Some (buffer ?e)"
    using list_all2_nthD2 [OF l i] assms(4) by (simp add: sizesOf_def)
  have "drop row ?view = drop (16 * i) (dirBytes ?fo es @ imageData es)"
    by (simp add: a assms(5))
  then have row: "take 16 (drop row ?view)
      = entryBytes ?e (?fo + length (imageData (take i es)))"
    using dirBytes_row [OF i] by simp
  have len: "row + 16 \<le> length ?view"
    using i by (simp add: a assms(5))
  have "length (buffer ?e) \<le> length (imageData es)"
    using imageData_bounds [OF i] by simp
  then have sm: "length (buffer ?e) mod 2 ^ 32 = length (buffer ?e)"
    using assms(2) by (simp add: a)
  note f = row_fields [OF row len, unfolded size_byte [OF std] sm, folded s]
  have "\<exists>png. pngBytes env img s = Some png
            \<and> getUint32 ?view (row + 8) True = Some (length png)"
    using png f(7) by blast
  with f(1-6) show ?thesis
    by (intro conjI)
qed

theorem directory_entry_layout_witness:
  "generateIcoBlob okEnv img300x300 = (trace300x300, Inr ico300x300)
   \<and> length (arrayBuffer ico300x300) < 2 ^ 32
   \<and> 0 < length (filter (\<lambda>s. s \<le> width img300x300 \<and> s \<le> height img300x300) standardSizes)
   \<and> filter (\<lambda>s. s \<le> width img300x300 \<and> s \<le> height img300x300) standardSizes ! 0 = 256
   \<and> getUint8 (arrayBuffer ico300x300) 6 = Some 0
   \<and> getUint8 (arrayBuffer ico300x300) 7 = Some 0
   \<and> getUint8 (arrayBuffer ico300x300) 8 = Some 0
   \<and> getUint8 (arrayBuffer ico300x300) 9 = Some 0
   \<and> getUint16 (arrayBuffer ico300x300) 10 True = Some 0
   \<and> getUint16 (arrayBuffer ico300x300) 12 True = Some 0
   \<and> pngBytes okEnv img300x300 256 = Some [0, 80, 78, 71]
   \<and> getUint32 (arrayBuffer ico300x300) 14 True = Some 4"
proof -
  have s: "length (arrayBuffer ico300x300) < 2 ^ 32"
    by (simp add: ico300x300_def)
  have f: "filter (\<lambda>s. s \<le> width img300x300 \<and> s \<le> height img300x300) standardSizes
             = [256, 128, 64, 48, 32, 16]"
    using sizesOf_300x300 by (simp add: sizesOf_def)
  have i: "0 < length (filter (\<lambda>s. s \<le> width img300x300 \<and> s \<le> height img300x300)
             standardSizes)"
    by (simp add: f)
  have z: "256 = filter (\<lambda>s. s \<le> width img300x300 \<and> s \<le> height img300x300)
             standardSizes ! 0"
    by (simp add: f)
  have r: "(6 :: nat) = 6 + 16 * 0"
    by simp
  show ?thesis
    using directory_entry_layout [OF run300x300 s i z r] run300x300 s i z
    by (simp add: pngBytes_okEnv)
qed

text \<open>
  C6. Header and total length. Every produced container begins with the little-endian
  uint16 values 0 (reserved) at offset 0, 1 (image type) at offset 2 and \<open>N\<close> (image
  count, the number of selected sizes) at offset 4. Its length is \<open>6 + 16 * N\<close> plus the
  lengths of the PNG buffers produced for the selected sizes; for a container of fewer
  than \<open>2 ^ 32\<close> bytes that is \<open>6 + 16 * N\<close> plus the sum of the data sizes of its
  directory entries.
\<close>

theorem header_and_total_length:
  assumes "generateIcoBlob env img = (tr, Inr ico)"
    and "n = length (filter (\<lambda>s. s \<le> width img \<and> s \<le> height img) standardSizes)"
  shows "getUint16 (arrayBuffer ico) 0 True = Some 0
     \<and> getUint16 (arrayBuffer ico) 2 True = Some 1
     \<and> getUint16 (arrayBuffer ico) 4 True = Some n
     \<and> (\<exists>pngs. list_all2 (\<lambda>s png. pngBytes env img s = Some png)
                  (filter (\<lambda>s. s \<le> width img \<and> s \<le> height img) standardSizes) pngs
              \<and> length (arrayBuffer ico) = 6 + 16 * n + sum_list (map length pngs))
     \<and> (length (arrayBuffer ico) < 2 ^ 32 \<longrightarrow>
          (\<exists>dir. parseIco (arrayBuffer ico) = Some dir \<and> length dir = n
             \<and> length (arrayBuffer ico) = 6 + 16 * n + sum_list (map dataSize dir)))"
proof -
  from assms(1) obtain es where m: "map size' es = sizesOf img"
    and l: "list_all2 (\<lambda>s e. pngBytes env img s = Some (buffer e)) (sizesOf img) es"
    and a: "arrayBuffer ico
           = headerBytes (length es) @ dirBytes (6 + 16 * length es) es @ imageData es"
    and p: "parseIco (arrayBuffer ico) = Some (dirEntries (6 + 16 * length es) es)"
    by (rule run_layout)
  let ?dir = "dirEntries (6 + 16 * length es) es"
  have "length es = length (sizesOf img)"
    using m by (metis length_map)
  then have n: "length es = n"
    using assms(2) by (simp add: sizesOf_def)
  then have "length es < 65536"
    using sizesOf_length [of img] assms(2) by (simp add: sizesOf_def)
  note h = header_fields [OF this, of "dirBytes (6 + 16 * length es) es @ imageData es",
      folded a, unfolded n]
  have len: "length (arrayBuffer ico) = 6 + 16 * n + length (imageData es)"
    by (simp add: a n)
  have l': "list_all2 (\<lambda>s png. pngBytes env img s = Some png) (sizesOf img) (map buffer es)"
    using l by (simp add: list_all2_map2)
  have "length (arrayBuffer ico) = 6 + 16 * n + sum_list (map length (map buffer es))"
    by (simp add: len length_imageData comp_def)
  with l' have c: "list_all2 (\<lambda>s png. pngBytes env img s = Some png)
                  (filter (\<lambda>s. s \<le> width img \<and> s \<le> height img) standardSizes)
                  (map buffer es)
              \<and> length (arrayBuffer ico) = 6 + 16 * n + sum_list (map length (map buffer es))"
    by (simp add: sizesOf_def)
  have e: "\<exists>pngs. list_all2 (\<lambda>s png. pngBytes env img s = Some png)
                  (filter (\<lambda>s. s \<le> width img \<and> s \<le> height img) standardSizes) pngs
              \<and> length (arrayBuffer ico) = 6 + 16 * n + sum_list (map length pngs)"
    by (rule exI) (rule c)
  have d: "\<exists>dir. parseIco (arrayBuffer ico) = Some dir \<and> length dir = n
             \<and> length (arrayBuffer ico) = 6 + 16 * n + sum_list (map dataSize dir)"
    if small: "length (arrayBuffer ico) < 2 ^ 32"
  proof -
    have "length (buffer e) mod 2 ^ 32 = length (buffer e)" if "e \<in> set es" for e
    proof -
      from that obtain i where "i < length es" and "e = es ! i"
        by (auto simp: in_set_conv_nth)
      then have "length (buffer e) \<le> length (imageData es)"
        using imageData_bounds [of i es] by simp
      then show ?thesis using small len by simp
    qed
    then have "map (\<lambda>e. length (buffer e) mod 2 ^ 32) es = map (\<lambda>e. length (buffer e)) es"
      by simp
    then have "sum_list (map dataSize ?dir) = length (imageData es)"
      by (simp only: dirEntries_dataSize length_imageData)
    then have "parseIco (arrayBuffer ico) = Some ?dir \<and> length ?dir = n
             \<and> length (arrayBuffer ico) = 6 + 16 * n + sum_list (map dataSize ?dir)"
      using p n len by simp
    then show ?thesis by (rule exI [where x = ?dir and P = "\<lambda>dir.
        parseIco (arrayBuffer ico) = Some dir \<and> length dir = n
          \<and> length (arrayBuffer ico) = 6 + 16 * n + sum_list (map dataSize dir)"])
  qed
  show ?thesis
    using h e d by (intro conjI impI)
qed

theorem header_and_total_length_witness:
  "generateIcoBlob okEnv img40x33 = (trace40x33, Inr ico40x33)
   \<and> 2 = length (filter (\<lambda>s. s \<le> width img40x33 \<and> s \<le> height img40x33) standardSizes)
   \<and> getUint16 (arrayBuffer ico40x33) 0 True = Some 0
   \<and> getUint16 (arrayBuffer ico40x33) 2 True = Some 1
   \<and> getUint16 (arrayBuffer ico40x33) 4 True = Some 2
   \<and> length (arrayBuffer ico40x33) < 2 ^ 32
   \<and> parseIco (arrayBuffer ico40x33) = Some dir40x33
   \<and> length (arrayBuffer ico40x33) = 6 + 16 * 2 + sum_list (map dataSize dir40x33)"
proof -
  have n: "2 = length (filter (\<lambda>s. s \<le> width img40x33 \<and> s \<le> height img40x33)
                        standardSizes)"
    using sizesOf_40x33 by (simp add: sizesOf_def)
  have s: "length (arrayBuffer ico40x33) < 2 ^ 32"
    by (simp add: ico40x33_def)
  have d: "parseIco (arrayBuffer ico40x33) = Some dir40x33"
    by (simp add: parse40x33 dir40x33_def)
  show ?thesis
    using header_and_total_length [OF run40x33 n] run40x33 n s
    by (auto simp: d)
qed

text \<open>
  C7, amended. For every requested size from 1 to \<open>2 ^ 31 - 1\<close>, every blob that
  \<^verbatim>\<open>generatePngBlob\<close> produces is the encoder's output for a canvas of exactly that size
  by that size onto which the whole source was drawn at \<open>(0, 0, size, size)\<close>, whatever
  the dimensions of the source, and its type is \<^verbatim>\<open>image/png\<close>. For every size, the
  function has no check of the size and none of the aspect ratio: when it fails, either
  the browser gave no 2D context (and nothing was drawn) or the encoder gave no blob for
  the drawn canvas; whenever the browser gives a context and the encoder a blob, it
  succeeds.
\<close>

theorem generatePngBlob_outcomes:
  "(0 < sz \<and> sz \<le> 2147483647 \<and> generatePngBlob env img sz = (tr, Inr b) \<longrightarrow>
      (\<exists>canvas. int (width canvas) = sz \<and> int (height canvas) = sz
                \<and> drawn canvas = [(img, 0, 0, sz, sz)]
                \<and> toBlob env canvas = Some (arrayBuffer b))
      \<and> type' b = ''image/png'')
   \<and> (generatePngBlob env img sz = (tr, Inl e) \<longrightarrow>
        (e = CouldNotGetCanvasContext \<and> tr = [] \<and> \<not> getContext env (blankCanvas sz))
      \<or> (e = FailedToCreateBlob sz \<and> getContext env (blankCanvas sz)
            \<and> toBlob env (drawnCanvas img sz) = None))
   \<and> (getContext env (blankCanvas sz) \<and> toBlob env (drawnCanvas img sz) \<noteq> None \<longrightarrow>
        (\<exists>b'. snd (generatePngBlob env img sz) = Inr b'))"
proof (intro conjI impI)
  assume h: "0 < sz \<and> sz \<le> 2147483647 \<and> generatePngBlob env img sz = (tr, Inr b)"
  then have a: "generatePngBlob env img sz = (tr, Inr b)"
    by simp
  have "int (width (drawnCanvas img sz)) = sz" "int (height (drawnCanvas img sz)) = sz"
    "drawn (drawnCanvas img sz) = [(img, 0, 0, sz, sz)]"
    using h by (simp_all add: drawnCanvas_def reflectUnsignedLong_in_range)
  with generatePngBlob_Inr(3) [OF a]
  show "\<exists>canvas. int (width canvas) = sz \<and> int (height canvas) = sz
                \<and> drawn canvas = [(img, 0, 0, sz, sz)]
                \<and> toBlob env canvas = Some (arrayBuffer b)"
    by blast
  show "type' b = ''image/png''"
    by (rule generatePngBlob_Inr(2) [OF a])
next
  assume "generatePngBlob env img sz = (tr, Inl e)"
  then show "(e = CouldNotGetCanvasContext \<and> tr = [] \<and> \<not> getContext env (blankCanvas sz))
      \<or> (e = FailedToCreateBlob sz \<and> getContext env (blankCanvas sz)
            \<and> toBlob env (drawnCanvas img sz) = None)"
    by (auto simp: generatePngBlob_def createCanvas_def drawnCanvas_def blankCanvas_def Let_def
             split: if_splits option.splits)
next
  assume "getContext env (blankCanvas sz) \<and> toBlob env (drawnCanvas img sz) \<noteq> None"
  then show "\<exists>b'. snd (generatePngBlob env img sz) = Inr b'"
    by (auto simp: generatePngBlob_def createCanvas_def drawnCanvas_def blankCanvas_def Let_def)
qed

theorem generatePngBlob_outcomes_witness:
  "(0 :: int) < 192 \<and> (192 :: int) \<le> 2147483647
   \<and> generatePngBlob okEnv img40x33 192
       = ([DrawImage img40x33 192, CanvasToBlob 192],
          Inr \<lparr>arrayBuffer = [192, 80, 78, 71], type' = ''image/png''\<rparr>)
   \<and> (\<exists>canvas. int (width canvas) = 192 \<and> int (height canvas) = 192
                \<and> drawn canvas = [(img40x33, 0, 0, 192, 192)]
                \<and> toBlob okEnv canvas = Some [192, 80, 78, 71])
   \<and> getContext okEnv (blankCanvas 512) \<and> toBlob okEnv (drawnCanvas img40x33 512) \<noteq> None
   \<and> (\<exists>b'. snd (generatePngBlob okEnv img40x33 512) = Inr b')
   \<and> generatePngBlob okEnv img40x33 0
       = ([DrawImage img40x33 0, CanvasToBlob 0], Inl (FailedToCreateBlob 0))
   \<and> getContext okEnv (blankCanvas 0) \<and> toBlob okEnv (drawnCanvas img40x33 0) = None
   \<and> width (drawnCanvas img40x33 (- 1)) = 300 \<and> height (drawnCanvas img40x33 (- 1)) = 150
   \<and> getContext okEnv (blankCanvas (- 1))
   \<and> toBlob okEnv (drawnCanvas img40x33 (- 1)) \<noteq> None
   \<and> (\<exists>b'. snd (generatePngBlob okEnv img40x33 (- 1)) = Inr b')"
proof -
  have r: "generatePngBlob okEnv img40x33 192
       = ([DrawImage img40x33 192, CanvasToBlob 192],
          Inr \<lparr>arrayBuffer = [192, 80, 78, 71], type' = ''image/png''\<rparr>)"
    by (simp add: png_okEnv)
  have c: "\<exists>canvas. int (width canvas) = 192 \<and> int (height canvas) = 192
                \<and> drawn canvas = [(img40x33, 0, 0, 192, 192)]
                \<and> toBlob okEnv canvas = Some [192, 80, 78, 71]"
    using generatePngBlob_outcomes [of 192 okEnv img40x33
        "[DrawImage img40x33 192, CanvasToBlob 192]"
        "\<lparr>arrayBuffer = [192, 80, 78, 71], type' = ''image/png''\<rparr>"] r
    by simp
  have g: "getContext okEnv (blankCanvas 512)"
    and t: "toBlob okEnv (drawnCanvas img40x33 512) \<noteq> None"
    by (simp_all add: okEnv_def drawnCanvas_def reflectUnsignedLong_in_range)
  have u: "\<exists>b'. snd (generatePngBlob okEnv img40x33 512) = Inr b'"
    using generatePngBlob_outcomes [of 512 okEnv img40x33] g t by simp
  have z: "generatePngBlob okEnv img40x33 0
       = ([DrawImage img40x33 0, CanvasToBlob 0], Inl (FailedToCreateBlob 0))"
    by (simp add: generatePngBlob_def okEnv_def Let_def createCanvas_def
          reflectUnsignedLong_in_range)
  have z': "getContext okEnv (blankCanvas 0)" "toBlob okEnv (drawnCanvas img40x33 0) = None"
    using generatePngBlob_outcomes [of 0 okEnv img40x33
        "[DrawImage img40x33 0, CanvasToBlob 0]" _ "FailedToCreateBlob 0"] z
    by simp_all
  have m: "width (drawnCanvas img40x33 (- 1)) = 300" "height (drawnCanvas img40x33 (- 1)) = 150"
    by (simp_all add: drawnCanvas_def reflectUnsignedLong_def)
  have mg: "getContext okEnv (blankCanvas (- 1))"
    and mt: "toBlob okEnv (drawnCanvas img40x33 (- 1)) \<noteq> None"
    using m by (simp_all add: okEnv_def)
  have mu: "\<exists>b'. snd (generatePngBlob okEnv img40x33 (- 1)) = Inr b'"
    using generatePngBlob_outcomes [of "- 1" okEnv img40x33] mg mt by simp
  from r c g t u z z' m mg mt mu show ?thesis
    by (intro conjI) simp_all
qed

text \<open>
  C7 as stated fails: in a browser that gives no 2D context, the call with the
  positive size 192 fails.
\<close>

theorem generatePngBlob_fails_at_positive_size:
  "(0 :: int) < 192
   \<and> generatePngBlob noContextEnv img40x33 192 = ([], Inl CouldNotGetCanvasContext)"
  by (simp add: generatePngBlob_def noContextEnv_def okEnv_def Let_def)

text \<open>
  C8. When width and height are both at least 16, the size 16 is among the selected
  sizes, so the selection is not empty. \<^verbatim>\<open>generateIcoBlob\<close> never ends with the
  NoEligibleSizes error, whatever the image and the browser. Without the guard of lines
  196 to 198 the rest of the function would end with it exactly for the images that the
  guard rejects.
\<close>

theorem noEligibleSizes_unreachable:
  "(16 \<le> width img \<and> 16 \<le> height img \<longrightarrow>
      16 \<in> set (filter (\<lambda>s. s \<le> width img \<and> s \<le> height img) standardSizes))
   \<and> snd (generateIcoBlob env img) \<noteq> Inl NoEligibleSizes
   \<and> (snd (generateIcoBlob_unguarded env img) = Inl NoEligibleSizes
        \<longleftrightarrow> width img < 16 \<or> height img < 16)"
proof (intro conjI impI)
  assume "16 \<le> width img \<and> 16 \<le> height img"
  then show "16 \<in> set (filter (\<lambda>s. s \<le> width img \<and> s \<le> height img) standardSizes)"
    using sixteen_selected [of img] by (simp add: sizesOf_def)
next
  show "snd (generateIcoBlob env img) \<noteq> Inl NoEligibleSizes"
    using unguarded_NoEligibleSizes [of env img] sizesOf_empty [of img]
    by (auto simp: generateIcoBlob_def)
next
  show "snd (generateIcoBlob_unguarded env img) = Inl NoEligibleSizes
        \<longleftrightarrow> width img < 16 \<or> height img < 16"
    by (simp add: unguarded_NoEligibleSizes sizesOf_empty)
qed

theorem noEligibleSizes_unreachable_witness:
  "16 \<le> width img40x33 \<and> 16 \<le> height img40x33
   \<and> 16 \<in> set (filter (\<lambda>s. s \<le> width img40x33 \<and> s \<le> height img40x33) standardSizes)
   \<and> snd (generateIcoBlob okEnv img40x33) \<noteq> Inl NoEligibleSizes
   \<and> snd (generateIcoBlob_unguarded okEnv img40x33) \<noteq> Inl NoEligibleSizes
   \<and> snd (generateIcoBlob_unguarded okEnv img15x15) = Inl NoEligibleSizes"
  using noEligibleSizes_unreachable [of img40x33 okEnv]
    noEligibleSizes_unreachable [of img15x15 okEnv]
  by (simp add: img40x33_def img15x15_def)

text \<open>
  C9. For every selected file whose declared type is not \<^verbatim>\<open>image/png\<close>,
  \<^verbatim>\<open>handleFileSelect\<close> ends in the error state with the invalid-file-type error, no
  file kept, hence no preview URL, and no archive URL. The only calls it has made are
  the revocations of the previous object URLs: the file is not read or decoded, nothing
  is drawn or encoded, nothing is fetched or packaged, whatever the browser would answer.
\<close>

theorem handleFileSelect_rejects_non_png:
  assumes "type' file \<noteq> ''image/png''"
  shows "handleFileSelect env st file =
           (revoke (pngPreviewUrl env st) @ revoke (zipBlobUrl st),
            st\<lparr>zipBlobUrl := None, error := Some InvalidFileType,
               status := Error, pngFile := None\<rparr>)
       \<and> pngPreviewUrl env (snd (handleFileSelect env st file)) = None"
  using assms by (simp add: handleFileSelect_def Let_def pngPreviewUrl_def)

theorem handleFileSelect_rejects_non_png_witness:
  "type' jpegFile \<noteq> ''image/png''
   \<and> pngPreviewUrl okEnv convertedState = Some ''blob:image/png''
   \<and> handleFileSelect okEnv convertedState jpegFile =
       ([RevokeObjectURL ''blob:image/png'', RevokeObjectURL ''blob:application/zip''],
        \<lparr>pngFile = None, zipBlobUrl = None, status = Error,
         error = Some InvalidFileType\<rparr>)
   \<and> pngPreviewUrl okEnv (snd (handleFileSelect okEnv convertedState jpegFile)) = None"
proof -
  have h: "type' jpegFile \<noteq> ''image/png''"
    by (simp add: jpegFile_def)
  have p: "pngPreviewUrl okEnv convertedState = Some ''blob:image/png''"
    by (simp add: pngPreviewUrl_def convertedState_def okEnv_def pngFile0_def Blob.truncate_def)
  note t = handleFileSelect_rejects_non_png [OF h, of okEnv convertedState]
  have r: "handleFileSelect okEnv convertedState jpegFile =
       ([RevokeObjectURL ''blob:image/png'', RevokeObjectURL ''blob:application/zip''],
        \<lparr>pngFile = None, zipBlobUrl = None, status = Error,
         error = Some InvalidFileType\<rparr>)"
    using t [THEN conjunct1] by (simp add: p revoke_def) (simp add: convertedState_def)
  have n: "pngPreviewUrl okEnv (snd (handleFileSelect okEnv convertedState jpegFile)) = None"
    by (rule t [THEN conjunct2])
  from h p r n show ?thesis
    by (intro conjI)
qed

text \<open>
  C10. For every successful run of \<^verbatim>\<open>generateIcoBlob\<close> the list of selected sizes is
  a suffix of \<open>[256, 128, 64, 48, 32, 16]\<close>, it is not empty and its last element is 16;
  the last directory entry of the container is the 16 by 16 one, and the image count is
  between 1 and 6.
\<close>

theorem selected_sizes_are_a_suffix:
  assumes "generateIcoBlob env img = (tr, Inr ico)"
    and "sizes = filter (\<lambda>s. s \<le> width img \<and> s \<le> height img) standardSizes"
  shows "suffix sizes standardSizes
     \<and> sizes \<noteq> []
     \<and> last sizes = 16
     \<and> (\<exists>dir. parseIco (arrayBuffer ico) = Some dir
          \<and> map (\<lambda>d. sizeOfByte (width_byte d)) dir = sizes
          \<and> map (\<lambda>d. sizeOfByte (height_byte d)) dir = sizes
          \<and> sizeOfByte (width_byte (last dir)) = 16
          \<and> sizeOfByte (height_byte (last dir)) = 16)
     \<and> (\<exists>n. getUint16 (arrayBuffer ico) 4 True = Some n \<and> 1 \<le> n \<and> n \<le> 6)"
proof -
  from assms(1) obtain es where m: "map size' es = sizesOf img"
    and a: "arrayBuffer ico
           = headerBytes (length es) @ dirBytes (6 + 16 * length es) es @ imageData es"
    and p: "parseIco (arrayBuffer ico) = Some (dirEntries (6 + 16 * length es) es)"
    and ne: "sizesOf img \<noteq> []"
    by (rule run_layout)
  let ?dir = "dirEntries (6 + 16 * length es) es"
  have sz: "sizes = sizesOf img"
    using assms(2) by (simp add: sizesOf_def)
  have n: "length es = length sizes"
    using m sz by (metis length_map)
  have six: "length es \<le> 6"
    using n sizesOf_length [of img] sz by simp
  have one: "1 \<le> length es"
    using ne n sz by (simp add: Suc_le_eq)
  have "length es < 65536"
    using six by simp
  then have cnt: "getUint16 (arrayBuffer ico) 4 True = Some (length es)"
    unfolding a by (rule header_fields)
  have std: "\<forall>e \<in> set es. size' e \<in> set standardSizes"
  proof
    fix e assume "e \<in> set es"
    then have "size' e \<in> set (map size' es)" by simp
    then show "size' e \<in> set standardSizes"
      using sizesOf_subset [of img] by (auto simp: m)
  qed
  have w: "map (\<lambda>d. sizeOfByte (width_byte d)) ?dir = sizes"
    and h: "map (\<lambda>d. sizeOfByte (height_byte d)) ?dir = sizes"
    using dirEntries_sizes [OF std, of "6 + 16 * length es"] by (simp_all add: m sz)
  have dne: "?dir \<noteq> []"
    using one by (cases es) simp_all
  have la: "last sizes = 16"
    using sizesOf_last [OF ne] sz by simp
  have lw: "sizeOfByte (width_byte (last ?dir)) = 16"
    using last_map [OF dne, of "\<lambda>d. sizeOfByte (width_byte d)"] la by (simp only: w)
  have lh: "sizeOfByte (height_byte (last ?dir)) = 16"
    using last_map [OF dne, of "\<lambda>d. sizeOfByte (height_byte d)"] la by (simp only: h)
  have c: "parseIco (arrayBuffer ico) = Some ?dir
          \<and> map (\<lambda>d. sizeOfByte (width_byte d)) ?dir = sizes
          \<and> map (\<lambda>d. sizeOfByte (height_byte d)) ?dir = sizes
          \<and> sizeOfByte (width_byte (last ?dir)) = 16
          \<and> sizeOfByte (height_byte (last ?dir)) = 16"
    using p w h lw lh by (intro conjI)
  have e1: "\<exists>dir. parseIco (arrayBuffer ico) = Some dir
          \<and> map (\<lambda>d. sizeOfByte (width_byte d)) dir = sizes
          \<and> map (\<lambda>d. sizeOfByte (height_byte d)) dir = sizes
          \<and> sizeOfByte (width_byte (last dir)) = 16
          \<and> sizeOfByte (height_byte (last dir)) = 16"
    by (rule exI) (rule c)
  have e2: "\<exists>n. getUint16 (arrayBuffer ico) 4 True = Some n \<and> 1 \<le> n \<and> n \<le> 6"
    using cnt one six by blast
  have s1: "suffix sizes standardSizes"
    unfolding sz by (rule sizesOf_suffix)
  have s2: "sizes \<noteq> []"
    using ne sz by simp
  show ?thesis
    using s1 s2 la e1 e2 by (intro conjI)
qed

theorem selected_sizes_are_a_suffix_witness:
  "generateIcoBlob okEnv img40x33 = (trace40x33, Inr ico40x33)
   \<and> [32, 16] = filter (\<lambda>s. s \<le> width img40x33 \<and> s \<le> height img40x33) standardSizes
   \<and> suffix [32, 16 :: nat] standardSizes
   \<and> last [32, 16 :: nat] = 16
   \<and> parseIco (arrayBuffer ico40x33) = Some dir40x33
   \<and> map (\<lambda>d. sizeOfByte (width_byte d)) dir40x33 = [32, 16]
   \<and> sizeOfByte (width_byte (last dir40x33)) = 16
   \<and> sizeOfByte (height_byte (last dir40x33)) = 16
   \<and> getUint16 (arrayBuffer ico40x33) 4 True = Some 2"
proof -
  have f: "[32, 16] = filter (\<lambda>s. s \<le> width img40x33 \<and> s \<le> height img40x33) standardSizes"
    using sizesOf_40x33 by (simp add: sizesOf_def)
  have d: "parseIco (arrayBuffer ico40x33) = Some dir40x33"
    by (simp add: parse40x33 dir40x33_def)
  have g: "getUint16 (arrayBuffer ico40x33) 4 True = Some 2"
    by (simp add: getUint16_def ico40x33_def)
  show ?thesis
    using selected_sizes_are_a_suffix [OF run40x33 f] run40x33 f
    by (auto simp: d g)
qed

end
